theory Spec2Isabelle
  imports Main "HOL-Library.Word" "HOL-Library.Monad_Syntax"
begin

unbundle bit_operations_syntax

section \<open>NGIN::Utilities::LSBFlag\<close>

text \<open>
  \<open>LSBFlag<T>\<close> holds one word \<open>data\<close> of the unsigned type \<open>T\<close>; the model is the
  word itself, for every width. The operators \<open><<\<close>, \<open>>>\<close>, \<open>|\<close>, \<open>&\<close> and \<open>~\<close> of the
  source are \<open>push_bit\<close>, \<open>drop_bit\<close>, \<open>OR\<close>, \<open>AND\<close> and \<open>NOT\<close>; the conversion of the
  result back to \<open>T\<close> (after integer promotion, for the narrow types) is the reduction
  modulo \<open>2 ^ w\<close> that word arithmetic performs.
\<close>

definition LSBFlag_default :: "'a::len word" where
  "LSBFlag_default = 0"

definition LSBFlag :: "'a::len word \<Rightarrow> bool \<Rightarrow> 'a word" where
  "LSBFlag val flag = push_bit 1 val OR of_bool flag"

definition SetValue :: "'a::len word \<Rightarrow> 'a word \<Rightarrow> 'a word" where
  "SetValue val data = push_bit 1 val OR (data AND 1)"

definition GetValue :: "'a::len word \<Rightarrow> 'a word" where
  "GetValue data = drop_bit 1 data"

definition SetFlag :: "bool \<Rightarrow> 'a::len word \<Rightarrow> 'a word" where
  "SetFlag flag data = (data AND NOT 1) OR of_bool flag"

definition GetFlag :: "'a::len word \<Rightarrow> bool" where
  "GetFlag data = (data AND 1 \<noteq> 0)"

definition LSBFlag_Set :: "'a::len word \<Rightarrow> bool \<Rightarrow> 'a word" where
  "LSBFlag_Set val flag = push_bit 1 val OR of_bool flag"

definition GetRaw :: "'a::len word \<Rightarrow> 'a word" where
  "GetRaw data = data"

definition SetRaw :: "'a::len word \<Rightarrow> 'a word" where
  "SetRaw data = data"

section \<open>Memory\<close>

text \<open>
  The target is a 64-bit little-endian machine: \<open>sizeof(char*) = sizeof(std::size_t) = 8\<close>,
  so that \<open>NormalStorage\<close>, \<open>SmallStorage\<close> and \<open>char data[sboSize]\<close> all fill the 48 bytes
  of \<open>StorageUnion\<close>.
\<close>

type_synonym byte = "8 word"
type_synonym size_t = "64 word"
type_synonym addr = "64 word"

abbreviation sboSize :: size_t where
  "sboSize \<equiv> 48"

text \<open>A 64-bit field in memory, least significant byte first.\<close>

definition store64 :: "64 word \<Rightarrow> byte list" where
  "store64 w = map (\<lambda>i. ucast (drop_bit (8 * i) w)) [0..<8]"

definition load64 :: "byte list \<Rightarrow> 64 word" where
  "load64 bs = foldr (\<lambda>b acc. ucast b OR push_bit 8 acc) bs 0"

text \<open>Overwriting the bytes of \<open>u\<close> from offset \<open>off\<close> with \<open>bs\<close>.\<close>

definition put_at :: "nat \<Rightarrow> 'a list \<Rightarrow> 'a list \<Rightarrow> 'a list" where
  "put_at off bs u = take off u @ bs @ drop (off + length bs) u"

text \<open>
  The state: the \<open>buffer\<close> member (48 bytes) of every \<open>String\<close> object, by object
  identity; the live \<open>new[]\<close> blocks, by address; and the allocator, which hands out the
  address \<open>brk\<close> next and whose fresh memory holds the bytes \<open>junk\<close> (\<open>new char[n]\<close> does
  not initialise the block).
\<close>

record state =
  strs :: "nat \<Rightarrow> byte list"
  heap :: "addr \<rightharpoonup> byte list"
  brk :: addr
  junk :: "addr \<Rightarrow> nat \<Rightarrow> byte"

text \<open>
  A \<open>char*\<close> into the state: the \<open>sboBuffer\<close> of an object, or a heap address
  (\<open>HeapPtr 0\<close> is \<open>nullptr\<close>). Offsets are passed separately.
\<close>

datatype ptr = SboPtr nat | HeapPtr addr

text \<open>
  \<open>None\<close> is an operation that does not complete: \<open>new\<close> throws \<open>std::bad_alloc\<close>
  (no address left, modelled by a \<open>brk\<close> that is null or not free), or memory is accessed
  through a null pointer or outside a live block. Copying zero bytes accesses nothing, and
  \<open>delete[]\<close> of a null pointer does nothing.
\<close>

definition new_char :: "size_t \<Rightarrow> state \<Rightarrow> (addr \<times> state) option" where
  "new_char n st =
     (if brk st = 0 \<or> heap st (brk st) \<noteq> None then None
      else Some (brk st,
        st\<lparr>heap := (heap st)(brk st \<mapsto> map (junk st (brk st)) [0..<unat n]),
           brk := brk st + 1\<rparr>))"

definition delete_arr :: "addr \<Rightarrow> state \<Rightarrow> state option" where
  "delete_arr p st =
     (if p = 0 then Some st
      else if heap st p = None then None
      else Some (st\<lparr>heap := (heap st)(p := None)\<rparr>))"

definition upd :: "nat \<Rightarrow> (byte list \<Rightarrow> byte list) \<Rightarrow> state \<Rightarrow> state" where
  "upd x f st = st\<lparr>strs := (strs st)(x := f (strs st x))\<rparr>"

fun load :: "state \<Rightarrow> ptr \<Rightarrow> nat \<Rightarrow> byte list option" where
  "load st (SboPtr x) n =
     (if n \<le> 47 then Some (take n (strs st x)) else None)"
| "load st (HeapPtr a) n =
     (if n = 0 then Some []
      else if a = 0 then None
      else case heap st a of
        None \<Rightarrow> None
      | Some blk \<Rightarrow> if n \<le> length blk then Some (take n blk) else None)"

fun store :: "ptr \<Rightarrow> nat \<Rightarrow> byte list \<Rightarrow> state \<Rightarrow> state option" where
  "store (SboPtr x) off bs st =
     (if off + length bs \<le> 47 then Some (upd x (put_at off bs) st) else None)"
| "store (HeapPtr a) off bs st =
     (if bs = [] then Some st
      else if a = 0 then None
      else case heap st a of
        None \<Rightarrow> None
      | Some blk \<Rightarrow>
          if off + length bs \<le> length blk
          then Some (st\<lparr>heap := (heap st)(a \<mapsto> put_at off bs blk)\<rparr>)
          else None)"

text \<open>
  \<open>std::memcpy(dst + off, src, n)\<close>. The source bytes are read before the destination is
  written, which is what the library does for ranges that do not overlap and the reading
  most favourable to the code where they do.
\<close>

definition memcpy :: "ptr \<Rightarrow> nat \<Rightarrow> ptr \<Rightarrow> size_t \<Rightarrow> state \<Rightarrow> state option" where
  "memcpy dst off src n st = do { bs \<leftarrow> load st src (unat n); store dst off bs st }"

text \<open>
  A \<open>const char*\<close> argument of the caller is \<open>None\<close> for \<open>nullptr\<close> and otherwise the
  character array it points to, which lies outside the strings' own storage. \<open>strlen\<close>
  counts up to the first NUL and has no result when the array holds none.
\<close>

fun strlen :: "byte list \<Rightarrow> size_t option" where
  "strlen [] = None"
| "strlen (b # bs) = (if b = 0 then Some 0 else map_option (\<lambda>n. n + 1) (strlen bs))"

definition memcpy_arr :: "ptr \<Rightarrow> nat \<Rightarrow> byte list \<Rightarrow> size_t \<Rightarrow> state \<Rightarrow> state option" where
  "memcpy_arr dst off arr n st =
     (if unat n \<le> length arr then store dst off (take (unat n) arr) st else None)"

text \<open>The text a \<open>char*\<close> shows to a reader of C strings: the bytes before the first NUL.\<close>

definition c_text :: "byte list \<Rightarrow> byte list option" where
  "c_text bs = (if 0 \<in> set bs then Some (takeWhile (\<lambda>b. b \<noteq> 0) bs) else None)"

fun deref :: "state \<Rightarrow> ptr \<Rightarrow> byte list option" where
  "deref st (SboPtr x) = Some (take 47 (strs st x))"
| "deref st (HeapPtr a) = (if a = 0 then None else heap st a)"

definition text_at :: "state \<Rightarrow> ptr \<Rightarrow> byte list option" where
  "text_at st p = Option.bind (deref st p) c_text"

text \<open>The byte \<open>p[i]\<close>, when \<open>p\<close> points to a live array that long.\<close>

definition byte_at :: "state \<Rightarrow> ptr \<Rightarrow> nat \<Rightarrow> byte option" where
  "byte_at st p i =
     (case deref st p of
        None \<Rightarrow> None
      | Some bs \<Rightarrow> if i < length bs then Some (bs ! i) else None)"

section \<open>NGIN::Containers::String\<close>

subsection \<open>The members of the union\<close>

text \<open>
  \<open>NormalStorage\<close>: \<open>data\<close> at offset 0, \<open>capacity\<close> at 8, 24 bytes of padding, \<open>sizeFlag\<close>
  at 40. \<open>SmallStorage\<close>: \<open>sboBuffer\<close> at 0 (47 bytes), \<open>remainingSizeFlag\<close> at 47.
\<close>

definition normal_data :: "state \<Rightarrow> nat \<Rightarrow> addr" where
  "normal_data st x = load64 (take 8 (strs st x))"

definition normal_capacity :: "state \<Rightarrow> nat \<Rightarrow> size_t" where
  "normal_capacity st x = load64 (take 8 (drop 8 (strs st x)))"

definition normal_sizeFlag :: "state \<Rightarrow> nat \<Rightarrow> size_t" where
  "normal_sizeFlag st x = load64 (take 8 (drop 40 (strs st x)))"

definition small_remainingSizeFlag :: "state \<Rightarrow> nat \<Rightarrow> byte" where
  "small_remainingSizeFlag st x = strs st x ! 47"

definition set_normal_data :: "nat \<Rightarrow> addr \<Rightarrow> state \<Rightarrow> state" where
  "set_normal_data x p = upd x (put_at 0 (store64 p))"

definition set_normal_capacity :: "nat \<Rightarrow> size_t \<Rightarrow> state \<Rightarrow> state" where
  "set_normal_capacity x c = upd x (put_at 8 (store64 c))"

definition set_normal_sizeFlag :: "nat \<Rightarrow> size_t \<Rightarrow> state \<Rightarrow> state" where
  "set_normal_sizeFlag x v = upd x (put_at 40 (store64 v))"

definition set_small_remainingSizeFlag :: "nat \<Rightarrow> byte \<Rightarrow> state \<Rightarrow> state" where
  "set_small_remainingSizeFlag x v = upd x (put_at 47 [v])"

definition set_small_sboBuffer :: "nat \<Rightarrow> nat \<Rightarrow> byte \<Rightarrow> state \<Rightarrow> state" where
  "set_small_sboBuffer x i v = upd x (put_at i [v])"

text \<open>\<open>std::memset(&buffer, 0, sizeof(buffer))\<close>\<close>

definition memset_buffer :: "nat \<Rightarrow> state \<Rightarrow> state" where
  "memset_buffer x = upd x (\<lambda>_. replicate 48 0)"

text \<open>\<open>std::memcpy(buffer.data, other.buffer.data, sboSize)\<close>\<close>

definition memcpy_buffer :: "nat \<Rightarrow> nat \<Rightarrow> state \<Rightarrow> state" where
  "memcpy_buffer x y st = upd x (\<lambda>_. strs st y) st"

subsection \<open>Observers\<close>

definition IsSmall :: "state \<Rightarrow> nat \<Rightarrow> bool" where
  "IsSmall st this = GetFlag (small_remainingSizeFlag st this)"

definition GetSize :: "state \<Rightarrow> nat \<Rightarrow> size_t" where
  "GetSize st this =
     (if IsSmall st this
      then (let remaining = ucast (GetValue (small_remainingSizeFlag st this))
            in (sboSize - 1) - remaining)
      else GetValue (normal_sizeFlag st this))"

definition CStr :: "state \<Rightarrow> nat \<Rightarrow> ptr" where
  "CStr st this = (if IsSmall st this then SboPtr this else HeapPtr (normal_data st this))"

subsection \<open>Constructors and destructor\<close>

definition String_default :: "nat \<Rightarrow> state \<Rightarrow> state" where
  "String_default this st0 =
     (let st = memset_buffer this st0;
          maxRemaining = ucast (sboSize - 1);
          st = set_small_remainingSizeFlag this (LSBFlag_Set maxRemaining True) st
      in set_small_sboBuffer this 0 0 st)"

definition String_cstr :: "nat \<Rightarrow> byte list option \<Rightarrow> state \<Rightarrow> state option" where
  "String_cstr this str st0 =
     (let st = memset_buffer this st0 in
      case str of
        None \<Rightarrow>
          (let maxRemaining = ucast (sboSize - 1);
               st = set_small_remainingSizeFlag this (LSBFlag_Set maxRemaining True) st
           in Some (set_small_sboBuffer this 0 0 st))
      | Some arr \<Rightarrow> do {
          len \<leftarrow> strlen arr;
          if len < sboSize - 1 then
            (let remaining = (sboSize - 1) - len;
                 st = set_small_remainingSizeFlag this (LSBFlag_Set (ucast remaining) True) st
             in memcpy_arr (SboPtr this) 0 arr (len + 1) st)
          else do {
            let st = set_normal_sizeFlag this (LSBFlag_Set len False) st;
            let st = set_normal_capacity this (len + 1) st;
            (p, st) \<leftarrow> new_char (normal_capacity st this) st;
            let st = set_normal_data this p st;
            memcpy_arr (HeapPtr (normal_data st this)) 0 arr (len + 1) st
          }
        })"

text \<open>The heap branch shared by the copy constructor and copy assignment.\<close>

definition copy_heap :: "nat \<Rightarrow> nat \<Rightarrow> state \<Rightarrow> state option" where
  "copy_heap this other st = do {
     let len = GetSize st other;
     let st = set_normal_sizeFlag this (LSBFlag_Set len False) st;
     let st = set_normal_capacity this (normal_capacity st other) st;
     (p, st) \<leftarrow> new_char (normal_capacity st this) st;
     let st = set_normal_data this p st;
     memcpy (HeapPtr (normal_data st this)) 0 (HeapPtr (normal_data st other)) (len + 1) st
   }"

definition String_copy :: "nat \<Rightarrow> nat \<Rightarrow> state \<Rightarrow> state option" where
  "String_copy this other st0 =
     (let st = memset_buffer this st0 in
      if IsSmall st other then Some (memcpy_buffer this other st)
      else copy_heap this other st)"

text \<open>The heap branch shared by the move constructor and move assignment.\<close>

definition move_heap :: "nat \<Rightarrow> nat \<Rightarrow> state \<Rightarrow> state" where
  "move_heap this other st =
     (let len = GetSize st other;
          st = set_normal_sizeFlag this (LSBFlag_Set len False) st;
          st = set_normal_capacity this (normal_capacity st other) st;
          st = set_normal_data this (normal_data st other) st;
          st = set_normal_sizeFlag other (LSBFlag_Set 0 False) st;
          st = set_normal_capacity other 0 st
      in set_normal_data other 0 st)"

definition String_move :: "nat \<Rightarrow> nat \<Rightarrow> state \<Rightarrow> state" where
  "String_move this other st0 =
     (let st = memset_buffer this st0 in
      if IsSmall st other then memcpy_buffer this other st
      else move_heap this other st)"

text \<open>
  The body of \<open>~String\<close>, which the two assignment operators repeat before they overwrite
  the buffer.
\<close>

definition String_dtor :: "nat \<Rightarrow> state \<Rightarrow> state option" where
  "String_dtor this st =
     (if \<not> IsSmall st this \<and> normal_data st this \<noteq> 0
      then do {
        st \<leftarrow> delete_arr (normal_data st this) st;
        Some (set_normal_data this 0 st)
      }
      else Some st)"

subsection \<open>Assignment\<close>

definition assign_copy :: "nat \<Rightarrow> nat \<Rightarrow> state \<Rightarrow> state option" where
  "assign_copy this other st =
     (if this = other then Some st
      else do {
        st \<leftarrow> String_dtor this st;
        let st = memset_buffer this st;
        if IsSmall st other then Some (memcpy_buffer this other st)
        else copy_heap this other st
      })"

definition assign_move :: "nat \<Rightarrow> nat \<Rightarrow> state \<Rightarrow> state option" where
  "assign_move this other st =
     (if this = other then Some st
      else do {
        st \<leftarrow> String_dtor this st;
        let st = memset_buffer this st;
        Some (if IsSmall st other then memcpy_buffer this other st
              else move_heap this other st)
      })"

subsection \<open>Append\<close>

definition ReallocateAndCopy :: "nat \<Rightarrow> size_t \<Rightarrow> size_t \<Rightarrow> state \<Rightarrow> state option" where
  "ReallocateAndCopy this newCapacity currentSize st = do {
     (newData, st) \<leftarrow> new_char newCapacity st;
     st \<leftarrow> (if IsSmall st this
            then memcpy (HeapPtr newData) 0 (SboPtr this) currentSize st
            else do {
              st \<leftarrow> memcpy (HeapPtr newData) 0 (HeapPtr (normal_data st this)) currentSize st;
              delete_arr (normal_data st this) st
            });
     let st = set_normal_sizeFlag this (LSBFlag_Set currentSize False) st;
     let st = set_normal_capacity this newCapacity st;
     Some (set_normal_data this newData st)
   }"

text \<open>The closing \<open>if (!IsSmall())\<close> of both overloads.\<close>

definition update_size :: "nat \<Rightarrow> size_t \<Rightarrow> state \<Rightarrow> state" where
  "update_size this totalSize st =
     (if \<not> IsSmall st this then set_normal_sizeFlag this (LSBFlag_Set totalSize False) st
      else st)"

definition Append_String :: "nat \<Rightarrow> nat \<Rightarrow> state \<Rightarrow> state option" where
  "Append_String this other st =
     (let currentSize = GetSize st this;
          otherSize = GetSize st other;
          totalSize = currentSize + otherSize
      in do {
        st \<leftarrow>
          (if IsSmall st this then
             (let remaining = ucast (GetValue (small_remainingSizeFlag st this)) in
              if remaining > otherSize then do {
                st \<leftarrow> memcpy (SboPtr this) (unat currentSize) (CStr st other) (otherSize + 1) st;
                Some (set_small_remainingSizeFlag this
                        (LSBFlag_Set (ucast (remaining - otherSize)) True) st)
              }
              else do {
                let newCapacity = (totalSize * 2) + 1;
                st \<leftarrow> ReallocateAndCopy this newCapacity currentSize st;
                memcpy (HeapPtr (normal_data st this)) (unat currentSize)
                  (CStr st other) (otherSize + 1) st
              })
           else do {
             st \<leftarrow> (if totalSize + 1 > normal_capacity st this
                    then ReallocateAndCopy this ((totalSize * 2) + 1) currentSize st
                    else Some st);
             memcpy (HeapPtr (normal_data st this)) (unat currentSize)
               (CStr st other) (otherSize + 1) st
           });
        Some (update_size this totalSize st)
      })"

definition Append_cstr :: "nat \<Rightarrow> byte list option \<Rightarrow> state \<Rightarrow> state option" where
  "Append_cstr this str st =
     (case str of
        None \<Rightarrow> Some st
      | Some arr \<Rightarrow> do {
          appendSize \<leftarrow> strlen arr;
          if appendSize = 0 then Some st
          else
            (let currentSize = GetSize st this;
                 totalSize = currentSize + appendSize
             in do {
               st \<leftarrow>
                 (if IsSmall st this then
                    (let remaining = ucast (GetValue (small_remainingSizeFlag st this)) in
                     if remaining > appendSize then do {
                       st \<leftarrow> memcpy_arr (SboPtr this) (unat currentSize) arr (appendSize + 1) st;
                       Some (set_small_remainingSizeFlag this
                               (LSBFlag_Set (ucast (remaining - appendSize)) True) st)
                     }
                     else do {
                       let newCapacity = (totalSize * 2) + 1;
                       st \<leftarrow> ReallocateAndCopy this newCapacity currentSize st;
                       memcpy_arr (HeapPtr (normal_data st this)) (unat currentSize)
                         arr (appendSize + 1) st
                     })
                  else do {
                    st \<leftarrow> (if totalSize + 1 > normal_capacity st this
                           then ReallocateAndCopy this ((totalSize * 2) + 1) currentSize st
                           else Some st);
                    memcpy_arr (HeapPtr (normal_data st this)) (unat currentSize)
                      arr (appendSize + 1) st
                  });
               Some (update_size this totalSize st)
             })
        })"

text \<open>
  The two overloads of \<open>Append\<close> differ in where the appended bytes come from. This is
  the body of the overload for C strings after its two early returns, for comparing the
  overload for strings with it.
\<close>

definition append_arr :: "nat \<Rightarrow> byte list \<Rightarrow> size_t \<Rightarrow> state \<Rightarrow> state option" where
  "append_arr this arr appendSize st =
     (let currentSize = GetSize st this;
          totalSize = currentSize + appendSize
      in do {
        st \<leftarrow>
          (if IsSmall st this then
             (let remaining = ucast (GetValue (small_remainingSizeFlag st this)) in
              if remaining > appendSize then do {
                st \<leftarrow> memcpy_arr (SboPtr this) (unat currentSize) arr (appendSize + 1) st;
                Some (set_small_remainingSizeFlag this
                        (LSBFlag_Set (ucast (remaining - appendSize)) True) st)
              }
              else do {
                let newCapacity = (totalSize * 2) + 1;
                st \<leftarrow> ReallocateAndCopy this newCapacity currentSize st;
                memcpy_arr (HeapPtr (normal_data st this)) (unat currentSize)
                  arr (appendSize + 1) st
              })
           else do {
             st \<leftarrow> (if totalSize + 1 > normal_capacity st this
                    then ReallocateAndCopy this ((totalSize * 2) + 1) currentSize st
                    else Some st);
             memcpy_arr (HeapPtr (normal_data st this)) (unat currentSize)
               arr (appendSize + 1) st
           });
        Some (update_size this totalSize st)
      })"

section \<open>Well-formed strings\<close>

text \<open>The text of a string as a reader of \<open>CStr()\<close> sees it.\<close>

definition content :: "state \<Rightarrow> nat \<Rightarrow> byte list option" where
  "content st x = text_at st (CStr st x)"

text \<open>
  A string that holds a text: the buffer has its 48 bytes; in SBO mode the remaining
  count lies between 1 and 47; in heap mode \<open>data\<close> is a live block of \<open>capacity\<close>
  bytes; and in both the text read through \<open>CStr()\<close> exists and is \<open>GetSize()\<close> long.
\<close>

definition valid :: "state \<Rightarrow> nat \<Rightarrow> bool" where
  "valid st x \<longleftrightarrow>
     length (strs st x) = 48 \<and>
     (if IsSmall st x
      then 1 \<le> GetValue (small_remainingSizeFlag st x) \<and>
           GetValue (small_remainingSizeFlag st x) \<le> 47
      else normal_data st x \<noteq> 0 \<and>
           (case heap st (normal_data st x) of
              None \<Rightarrow> False
            | Some blk \<Rightarrow> length blk = unat (normal_capacity st x))) \<and>
     (case content st x of
        None \<Rightarrow> False
      | Some s \<Rightarrow> length s = unat (GetSize st x))"

text \<open>What a move leaves in a source that was in heap mode.\<close>

definition moved_from :: "state \<Rightarrow> nat \<Rightarrow> bool" where
  "moved_from st x \<longleftrightarrow>
     length (strs st x) = 48 \<and> \<not> IsSmall st x \<and> normal_data st x = 0 \<and>
     normal_capacity st x = 0 \<and> GetSize st x = 0"

text \<open>
  A constructed object and the bytes it stands for: a well-formed string with its text, or
  a moved-from object, which stands for no bytes.
\<close>

definition holds :: "state \<Rightarrow> nat \<Rightarrow> byte list \<Rightarrow> bool" where
  "holds st x a \<longleftrightarrow> (valid st x \<and> content st x = Some a) \<or> (moved_from st x \<and> a = [])"

text \<open>
  Appending \<open>m\<close> bytes exceeds the capacity at hand: in SBO mode the remaining count is
  not greater than \<open>m\<close>; in heap mode the total plus the terminator is greater than
  \<open>capacity\<close>.
\<close>

definition grows :: "state \<Rightarrow> nat \<Rightarrow> nat \<Rightarrow> bool" where
  "grows st x m \<longleftrightarrow>
     (if IsSmall st x then 47 - unat (GetSize st x) \<le> m
      else unat (normal_capacity st x) < unat (GetSize st x) + m + 1)"

text \<open>The next \<open>new[]\<close> succeeds.\<close>

definition can_alloc :: "state \<Rightarrow> bool" where
  "can_alloc st \<longleftrightarrow> brk st \<noteq> 0 \<and> heap st (brk st) = None"

text \<open>The next \<open>k\<close> allocations succeed: the addresses from \<open>brk\<close> on are non-null and free.\<close>

definition room :: "state \<Rightarrow> nat \<Rightarrow> bool" where
  "room st k \<longleftrightarrow> (\<forall>i<k. brk st + of_nat i \<noteq> 0 \<and> heap st (brk st + of_nat i) = None)"

text \<open>
  A state to run examples in: no object constructed, no block allocated, the allocator at
  address 1, and fresh memory full of the byte \<open>0x58\<close>.
\<close>

definition st_init :: state where
  "st_init = \<lparr>strs = (\<lambda>_. []), heap = Map.empty, brk = 1, junk = (\<lambda>_ _. 0x58)\<rparr>"

section \<open>Sequences of public operations\<close>

text \<open>
  The states that programs reach. \<open>reachable L st\<close>: some sequence of constructors,
  destructors, assignments and appends leads to the state \<open>st\<close>, in which the objects of
  \<open>L\<close> are the constructed strings. A constructor runs on storage that holds no string, the
  other operations on constructed strings, and a step is there only when the operation
  returns. The texts involved are shorter than \<open>2 ^ 55\<close> bytes. A string is appended to
  itself only when its capacity suffices.
\<close>

inductive reachable :: "nat set \<Rightarrow> state \<Rightarrow> bool" where
  start: "reachable {} st"
| ctor_default:
    "reachable L st \<Longrightarrow> x \<notin> L \<Longrightarrow> reachable (insert x L) (String_default x st)"
| ctor_null:
    "reachable L st \<Longrightarrow> x \<notin> L \<Longrightarrow> String_cstr x None st = Some st' \<Longrightarrow>
     reachable (insert x L) st'"
| ctor_cstr:
    "reachable L st \<Longrightarrow> x \<notin> L \<Longrightarrow> 0 \<notin> set s \<Longrightarrow> length s < 2 ^ 55 \<Longrightarrow>
     String_cstr x (Some (s @ 0 # r)) st = Some st' \<Longrightarrow> reachable (insert x L) st'"
| ctor_copy:
    "reachable L st \<Longrightarrow> x \<notin> L \<Longrightarrow> y \<in> L \<Longrightarrow> String_copy x y st = Some st' \<Longrightarrow>
     reachable (insert x L) st'"
| ctor_move:
    "reachable L st \<Longrightarrow> x \<notin> L \<Longrightarrow> y \<in> L \<Longrightarrow> reachable (insert x L) (String_move x y st)"
| dtor:
    "reachable L st \<Longrightarrow> x \<in> L \<Longrightarrow> String_dtor x st = Some st' \<Longrightarrow> reachable (L - {x}) st'"
| copy_assign:
    "reachable L st \<Longrightarrow> x \<in> L \<Longrightarrow> y \<in> L \<Longrightarrow> assign_copy x y st = Some st' \<Longrightarrow>
     reachable L st'"
| move_assign:
    "reachable L st \<Longrightarrow> x \<in> L \<Longrightarrow> y \<in> L \<Longrightarrow> assign_move x y st = Some st' \<Longrightarrow>
     reachable L st'"
| append_null:
    "reachable L st \<Longrightarrow> x \<in> L \<Longrightarrow> Append_cstr x None st = Some st' \<Longrightarrow> reachable L st'"
| append_cstr:
    "reachable L st \<Longrightarrow> x \<in> L \<Longrightarrow> 0 \<notin> set b \<Longrightarrow>
     unat (GetSize st x) + length b < 2 ^ 55 \<Longrightarrow>
     Append_cstr x (Some (b @ 0 # r)) st = Some st' \<Longrightarrow> reachable L st'"
| append_String:
    "reachable L st \<Longrightarrow> x \<in> L \<Longrightarrow> y \<in> L \<Longrightarrow>
     x \<noteq> y \<or> \<not> grows st x (unat (GetSize st x)) \<Longrightarrow>
     unat (GetSize st x) + unat (GetSize st y) < 2 ^ 55 \<Longrightarrow>
     Append_String x y st = Some st' \<Longrightarrow> reachable L st'"

text \<open>
  What the operations maintain: every constructed string is well formed or moved-from, and
  two strings in heap mode never share a block.
\<close>

definition String_invariant :: "nat set \<Rightarrow> state \<Rightarrow> bool" where
  "String_invariant L st \<longleftrightarrow>
     (\<forall>x\<in>L. valid st x \<or> moved_from st x) \<and>
     (\<forall>x\<in>L. \<forall>y\<in>L. x \<noteq> y \<and> \<not> IsSmall st x \<and> \<not> IsSmall st y \<and> normal_data st x \<noteq> 0
          \<longrightarrow> normal_data st x \<noteq> normal_data st y)"

section \<open>LSBFlag: packing and projections\<close>

lemma bit_LSBFlag:
  "bit (LSBFlag v f) n \<longleftrightarrow> (if n = 0 then f else n < LENGTH('a) \<and> bit (v::'a::len word) (n - 1))"
  unfolding LSBFlag_def
  by (cases f; cases n)
     (simp_all only: bit_or_iff bit_push_bit_iff bit_of_bool_iff of_bool_eq bit_0 bit_1_iff,
      auto simp add: bit_imp_le_length even_or_iff)

lemma GetFlag_bit0: "GetFlag d = bit d 0"
  unfolding GetFlag_def by (simp add: and_one_eq bit_0 mod_2_eq_odd)

lemma GetFlag_LSBFlag: "GetFlag (LSBFlag v f) = f"
  by (simp only: GetFlag_bit0 bit_LSBFlag) simp

lemma GetValue_LSBFlag: "GetValue (LSBFlag v f) = take_bit (LENGTH('a) - 1) (v::'a::len word)"
  unfolding GetValue_def
  by (rule bit_word_eqI) (auto simp only: bit_drop_bit_eq bit_LSBFlag bit_take_bit_iff o_def, auto)

lemma LSBFlag_arith: "LSBFlag v f = 2 * v + of_bool f"
  unfolding LSBFlag_def
  by (cases f) (simp_all add: push_bit_eq_mult or_one_eq mult.commute)

text \<open>
  C9. For every width \<open>w\<close>, the word stored by \<open>LSBFlag(value, flag)\<close> is
  \<open>(value << 1) | flag\<close> reduced modulo \<open>2 ^ w\<close>; \<open>GetValue\<close> then returns \<open>value\<close>
  modulo \<open>2 ^ (w - 1)\<close> and \<open>GetFlag\<close> returns \<open>flag\<close>. Construction is total: a value
  that uses the top bit is truncated, not rejected.
\<close>

theorem LSBFlag_truncates:
  fixes v :: "'a::len word"
  shows "unat (GetRaw (LSBFlag v f)) = (2 * unat v + of_bool f) mod 2 ^ LENGTH('a)
       \<and> unat (GetValue (LSBFlag v f)) = unat v mod 2 ^ (LENGTH('a) - 1)
       \<and> GetFlag (LSBFlag v f) = f"
proof (intro conjI)
  show "unat (GetRaw (LSBFlag v f)) = (2 * unat v + of_bool f) mod 2 ^ LENGTH('a)"
    by (simp add: GetRaw_def LSBFlag_arith unat_word_ariths mod_Suc_eq mod_simps)
  show "unat (GetValue (LSBFlag v f)) = unat v mod 2 ^ (LENGTH('a) - 1)"
    by (simp only: GetValue_LSBFlag unsigned_take_bit_eq) (simp only: take_bit_eq_mod)
  show "GetFlag (LSBFlag v f) = f"
    by (rule GetFlag_LSBFlag)
qed

lemma LSBFlag_Set_eq: "LSBFlag_Set v f = LSBFlag v f"
  by (simp only: LSBFlag_Set_def LSBFlag_def)

lemma length_store64: "length (store64 w) = 8"
  by (simp add: store64_def)

lemma load64_8:
  "load64 [b0, b1, b2, b3, b4, b5, b6, b7] =
     ucast b0 OR push_bit 8 (ucast b1 OR push_bit 8 (ucast b2 OR push_bit 8 (ucast b3 OR
     push_bit 8 (ucast b4 OR push_bit 8 (ucast b5 OR push_bit 8 (ucast b6 OR push_bit 8 (ucast b7)))))))"
  by (simp add: load64_def)

lemma store64_8:
  "store64 w = [ucast w, ucast (drop_bit 8 w), ucast (drop_bit 16 w), ucast (drop_bit 24 w),
     ucast (drop_bit 32 w), ucast (drop_bit 40 w), ucast (drop_bit 48 w), ucast (drop_bit 56 w)]"
  by (simp add: store64_def upt_rec)

lemma low_byte_split:
  fixes v :: "64 word"
  shows "ucast (ucast v :: byte) OR push_bit 8 (drop_bit 8 v) = v"
proof (rule bit_word_eqI)
  fix n
  assume "n < LENGTH(64)"
  then show "bit (ucast (ucast v :: byte) OR push_bit 8 (drop_bit 8 v)) n = bit v n"
    by (cases "n < 8")
       (simp_all only: bit_or_iff bit_push_bit_iff bit_ucast_iff bit_drop_bit_eq o_def,
        auto simp add: not_less)
qed

lemma top_byte:
  fixes w :: "64 word"
  shows "ucast (ucast (drop_bit 56 w) :: byte) = drop_bit 56 w"
  by (rule bit_word_eqI)
     (auto simp only: bit_ucast_iff bit_drop_bit_eq o_def, auto dest: bit_imp_le_length)

lemma load64_store64: "load64 (store64 w) = w"
proof -
  have step: "ucast (ucast (drop_bit k w) :: byte) OR push_bit 8 (drop_bit (8 + k) w) = drop_bit k w" for k
    using low_byte_split [of "drop_bit k w"] by (simp only: drop_bit_drop_bit)
  have "load64 (store64 w) = drop_bit 0 w"
    unfolding store64_8 load64_8 top_byte
    using step [of 48] step [of 40] step [of 32] step [of 24] step [of 16] step [of 8] step [of 0]
    by simp
  then show ?thesis by simp
qed

lemma store64_last: "store64 w ! 7 = ucast (drop_bit 56 w)"
  by (simp add: store64_8)

lemma zeros_8: "take 8 (replicate 48 (0::byte)) = [0,0,0,0,0,0,0,0]"
  by (simp add: numeral_eq_Suc)

lemma load64_zeros: "load64 [0,0,0,0,0,0,0,0] = 0"
  by (simp add: load64_def)

lemma load64_zero8: "load64 (replicate 8 0) = 0"
  by (simp add: load64_def numeral_eq_Suc)

lemma load64_replicate:
  "8 \<le> n \<Longrightarrow> load64 (take 8 (replicate n 0)) = 0"
  by (simp add: min_def load64_def numeral_eq_Suc)

subsection \<open>Overwriting a range\<close>

lemma length_put_at: "off + length bs \<le> length u \<Longrightarrow> length (put_at off bs u) = length u"
  by (simp add: put_at_def)

lemma nth_put_at:
  "off + length bs \<le> length u \<Longrightarrow>
   put_at off bs u ! i = (if off \<le> i \<and> i < off + length bs then bs ! (i - off) else u ! i)"
  by (auto simp add: put_at_def nth_append)

lemma take_put_at_le: "n \<le> off \<Longrightarrow> off \<le> length u \<Longrightarrow> take n (put_at off bs u) = take n u"
  by (simp add: put_at_def)

lemma slice_put_at_same:
  "off \<le> length u \<Longrightarrow> take (length bs) (drop off (put_at off bs u)) = bs"
  by (simp add: put_at_def)

lemma slice_put_at_below:
  "a + n \<le> off \<Longrightarrow> off \<le> length u \<Longrightarrow>
   take n (drop a (put_at off bs u)) = take n (drop a u)"
  by (simp add: put_at_def drop_take)

lemma drop_put_at_above:
  "off + length bs \<le> a \<Longrightarrow> off \<le> length u \<Longrightarrow> drop a (put_at off bs u) = drop a u"
  by (simp add: put_at_def)

lemma take_put_at_above:
  assumes "off + length bs \<le> n" and "off + length bs \<le> length u"
  shows "take n (put_at off bs u) = put_at off bs (take n u)"
proof -
  have "take n (take off u @ bs @ drop (off + length bs) u)
      = take off u @ bs @ take (n - (off + length bs)) (drop (off + length bs) u)"
    using assms by simp
  moreover have "take off (take n u) = take off u"
    using assms by (simp add: min_def)
  moreover have "drop (off + length bs) (take n u)
      = take (n - (off + length bs)) (drop (off + length bs) u)"
    by (simp add: drop_take)
  ultimately show ?thesis
    by (simp only: put_at_def)
qed

lemma put_at_prefix:
  "put_at (length a) bs (a @ rest) = a @ bs @ drop (length bs) rest"
  by (simp add: put_at_def)

subsection \<open>Reading a member after writing a member\<close>

lemma upd_sel [simp]:
  "strs (upd x f st) = (strs st)(x := f (strs st x))"
  "heap (upd x f st) = heap st"
  "brk (upd x f st) = brk st"
  "junk (upd x f st) = junk st"
  by (simp_all add: upd_def)

lemmas setter_defs =
  set_normal_data_def set_normal_capacity_def set_normal_sizeFlag_def
  set_small_remainingSizeFlag_def memset_buffer_def memcpy_buffer_def

lemmas getter_defs =
  normal_data_def normal_capacity_def normal_sizeFlag_def small_remainingSizeFlag_def

lemma setters_heap [simp]:
  "heap (set_normal_data x p st) = heap st"
  "heap (set_normal_capacity x c st) = heap st"
  "heap (set_normal_sizeFlag x v st) = heap st"
  "heap (set_small_remainingSizeFlag x r st) = heap st"
  "heap (memset_buffer x st) = heap st"
  "heap (memcpy_buffer x y st) = heap st"
  by (simp_all add: setter_defs)

lemma setters_brk [simp]:
  "brk (set_normal_data x p st) = brk st"
  "brk (set_normal_capacity x c st) = brk st"
  "brk (set_normal_sizeFlag x v st) = brk st"
  "brk (set_small_remainingSizeFlag x r st) = brk st"
  "brk (memset_buffer x st) = brk st"
  "brk (memcpy_buffer x y st) = brk st"
  by (simp_all add: setter_defs)

lemma setters_junk [simp]:
  "junk (set_normal_data x p st) = junk st"
  "junk (set_normal_capacity x c st) = junk st"
  "junk (set_normal_sizeFlag x v st) = junk st"
  "junk (set_small_remainingSizeFlag x r st) = junk st"
  "junk (memset_buffer x st) = junk st"
  "junk (memcpy_buffer x y st) = junk st"
  by (simp_all add: setter_defs)

lemma setters_other [simp]:
  "y \<noteq> x \<Longrightarrow> strs (set_normal_data x p st) y = strs st y"
  "y \<noteq> x \<Longrightarrow> strs (set_normal_capacity x c st) y = strs st y"
  "y \<noteq> x \<Longrightarrow> strs (set_normal_sizeFlag x v st) y = strs st y"
  "y \<noteq> x \<Longrightarrow> strs (set_small_remainingSizeFlag x r st) y = strs st y"
  "y \<noteq> x \<Longrightarrow> strs (memset_buffer x st) y = strs st y"
  "y \<noteq> x \<Longrightarrow> strs (memcpy_buffer x z st) y = strs st y"
  by (simp_all add: setter_defs)

lemma setters_length [simp]:
  "length (strs st x) = 48 \<Longrightarrow> length (strs (set_normal_data x p st) x) = 48"
  "length (strs st x) = 48 \<Longrightarrow> length (strs (set_normal_capacity x c st) x) = 48"
  "length (strs st x) = 48 \<Longrightarrow> length (strs (set_normal_sizeFlag x v st) x) = 48"
  "length (strs st x) = 48 \<Longrightarrow> length (strs (set_small_remainingSizeFlag x r st) x) = 48"
  "length (strs (memset_buffer x st) x) = 48"
  "length (strs (memcpy_buffer x y st) x) = length (strs st y)"
  by (simp_all add: setter_defs length_put_at length_store64)

lemma get_data_set [simp]:
  "normal_data (set_normal_data x p st) x = p"
  "length (strs st x) = 48 \<Longrightarrow> normal_data (set_normal_capacity x c st) x = normal_data st x"
  "length (strs st x) = 48 \<Longrightarrow> normal_data (set_normal_sizeFlag x v st) x = normal_data st x"
  "length (strs st x) = 48 \<Longrightarrow> normal_data (set_small_remainingSizeFlag x r st) x = normal_data st x"
  "normal_data (memset_buffer x st) x = 0"
  "normal_data (memcpy_buffer x y st) x = normal_data st y"
  by (simp_all add: setter_defs getter_defs put_at_def length_store64 load64_store64 load64_replicate load64_zero8)

lemma get_capacity_set [simp]:
  "normal_capacity (set_normal_data x p st) x = normal_capacity st x"
  "length (strs st x) = 48 \<Longrightarrow> normal_capacity (set_normal_capacity x c st) x = c"
  "length (strs st x) = 48 \<Longrightarrow> normal_capacity (set_normal_sizeFlag x v st) x = normal_capacity st x"
  "length (strs st x) = 48 \<Longrightarrow> normal_capacity (set_small_remainingSizeFlag x r st) x = normal_capacity st x"
  "normal_capacity (memset_buffer x st) x = 0"
  "normal_capacity (memcpy_buffer x y st) x = normal_capacity st y"
  by (simp_all add: setter_defs getter_defs put_at_def length_store64 load64_store64 load64_replicate load64_zero8 drop_take)

lemma get_sizeFlag_set [simp]:
  "normal_sizeFlag (set_normal_data x p st) x = normal_sizeFlag st x"
  "length (strs st x) = 48 \<Longrightarrow> normal_sizeFlag (set_normal_capacity x c st) x = normal_sizeFlag st x"
  "length (strs st x) = 48 \<Longrightarrow> normal_sizeFlag (set_normal_sizeFlag x v st) x = v"
  "normal_sizeFlag (memset_buffer x st) x = 0"
  "normal_sizeFlag (memcpy_buffer x y st) x = normal_sizeFlag st y"
  by (simp_all add: setter_defs getter_defs put_at_def length_store64 load64_store64 load64_replicate load64_zero8 drop_take)

lemma get_rsf_set [simp]:
  "length (strs st x) = 48 \<Longrightarrow> small_remainingSizeFlag (set_normal_data x p st) x = small_remainingSizeFlag st x"
  "length (strs st x) = 48 \<Longrightarrow> small_remainingSizeFlag (set_normal_capacity x c st) x = small_remainingSizeFlag st x"
  "length (strs st x) = 48 \<Longrightarrow> small_remainingSizeFlag (set_normal_sizeFlag x v st) x = ucast (drop_bit 56 v)"
  "length (strs st x) = 48 \<Longrightarrow> small_remainingSizeFlag (set_small_remainingSizeFlag x r st) x = r"
  "small_remainingSizeFlag (memset_buffer x st) x = 0"
  "small_remainingSizeFlag (memcpy_buffer x y st) x = small_remainingSizeFlag st y"
  by (simp_all add: setter_defs getter_defs put_at_def length_store64 nth_append store64_last)

lemma getters_other [simp]:
  "y \<noteq> x \<Longrightarrow> normal_data (set_normal_data x p st) y = normal_data st y"
  "y \<noteq> x \<Longrightarrow> normal_data (set_normal_capacity x c st) y = normal_data st y"
  "y \<noteq> x \<Longrightarrow> normal_data (set_normal_sizeFlag x v st) y = normal_data st y"
  "y \<noteq> x \<Longrightarrow> normal_data (set_small_remainingSizeFlag x r st) y = normal_data st y"
  "y \<noteq> x \<Longrightarrow> normal_data (memset_buffer x st) y = normal_data st y"
  "y \<noteq> x \<Longrightarrow> normal_data (memcpy_buffer x z st) y = normal_data st y"
  "y \<noteq> x \<Longrightarrow> normal_capacity (set_normal_data x p st) y = normal_capacity st y"
  "y \<noteq> x \<Longrightarrow> normal_capacity (set_normal_capacity x c st) y = normal_capacity st y"
  "y \<noteq> x \<Longrightarrow> normal_capacity (set_normal_sizeFlag x v st) y = normal_capacity st y"
  "y \<noteq> x \<Longrightarrow> normal_capacity (set_small_remainingSizeFlag x r st) y = normal_capacity st y"
  "y \<noteq> x \<Longrightarrow> normal_capacity (memset_buffer x st) y = normal_capacity st y"
  "y \<noteq> x \<Longrightarrow> normal_capacity (memcpy_buffer x z st) y = normal_capacity st y"
  "y \<noteq> x \<Longrightarrow> normal_sizeFlag (set_normal_data x p st) y = normal_sizeFlag st y"
  "y \<noteq> x \<Longrightarrow> normal_sizeFlag (set_normal_capacity x c st) y = normal_sizeFlag st y"
  "y \<noteq> x \<Longrightarrow> normal_sizeFlag (set_normal_sizeFlag x v st) y = normal_sizeFlag st y"
  "y \<noteq> x \<Longrightarrow> normal_sizeFlag (set_small_remainingSizeFlag x r st) y = normal_sizeFlag st y"
  "y \<noteq> x \<Longrightarrow> normal_sizeFlag (memset_buffer x st) y = normal_sizeFlag st y"
  "y \<noteq> x \<Longrightarrow> normal_sizeFlag (memcpy_buffer x z st) y = normal_sizeFlag st y"
  "y \<noteq> x \<Longrightarrow> small_remainingSizeFlag (set_normal_data x p st) y = small_remainingSizeFlag st y"
  "y \<noteq> x \<Longrightarrow> small_remainingSizeFlag (set_normal_capacity x c st) y = small_remainingSizeFlag st y"
  "y \<noteq> x \<Longrightarrow> small_remainingSizeFlag (set_normal_sizeFlag x v st) y = small_remainingSizeFlag st y"
  "y \<noteq> x \<Longrightarrow> small_remainingSizeFlag (set_small_remainingSizeFlag x r st) y = small_remainingSizeFlag st y"
  "y \<noteq> x \<Longrightarrow> small_remainingSizeFlag (memset_buffer x st) y = small_remainingSizeFlag st y"
  "y \<noteq> x \<Longrightarrow> small_remainingSizeFlag (memcpy_buffer x z st) y = small_remainingSizeFlag st y"
  by (simp_all add: getter_defs)

text \<open>The members depend on the bytes of the object alone.\<close>

lemma getters_cong:
  "strs st' y = strs st y \<Longrightarrow> normal_data st' y = normal_data st y"
  "strs st' y = strs st y \<Longrightarrow> normal_capacity st' y = normal_capacity st y"
  "strs st' y = strs st y \<Longrightarrow> normal_sizeFlag st' y = normal_sizeFlag st y"
  "strs st' y = strs st y \<Longrightarrow> small_remainingSizeFlag st' y = small_remainingSizeFlag st y"
  by (simp_all add: getter_defs)

lemma observers_cong:
  "strs st' y = strs st y \<Longrightarrow> IsSmall st' y = IsSmall st y"
  "strs st' y = strs st y \<Longrightarrow> GetSize st' y = GetSize st y"
  "strs st' y = strs st y \<Longrightarrow> CStr st' y = CStr st y"
  by (simp_all add: IsSmall_def GetSize_def CStr_def getter_defs)

subsection \<open>The discriminant and the size\<close>

lemma GetFlag_top_byte:
  fixes v :: size_t
  shows "GetFlag (ucast (drop_bit 56 v) :: byte) = bit v 56"
  by (simp add: GetFlag_bit0 bit_ucast_iff bit_drop_bit_eq)

lemma take_bit_small:
  fixes n :: "'a::len word"
  shows "unat n < 2 ^ k \<Longrightarrow> take_bit k n = n"
  by (simp add: word_unat_eq_iff unsigned_take_bit_eq take_bit_nat_eq_self)

lemma bit_small:
  fixes n :: "'a::len word"
  assumes "unat n < 2 ^ k" and "k \<le> m"
  shows "\<not> bit n m"
proof -
  have "bit n m = bit (take_bit k n) m"
    using assms by (simp only: take_bit_small)
  also have "\<dots> = False"
    using assms by (simp add: bit_take_bit_iff)
  finally show ?thesis by simp
qed

lemma bit55_small:
  fixes n :: size_t
  shows "unat n < 2 ^ 55 \<Longrightarrow> \<not> bit n 55"
  by (rule bit_small [where k = 55]) simp_all

lemma IsSmall_after_sizeFlag:
  assumes "length (strs st x) = 48" and "unat n < 2 ^ 55"
  shows "\<not> IsSmall (set_normal_sizeFlag x (LSBFlag_Set n False) st) x"
  using assms bit55_small [of n]
  by (simp add: IsSmall_def GetFlag_top_byte LSBFlag_Set_eq bit_LSBFlag)

lemma GetValue_size:
  fixes n :: size_t
  assumes "unat n < 2 ^ 63"
  shows "GetValue (LSBFlag_Set n f) = n"
  using take_bit_small [of n 63] assms
  by (simp add: LSBFlag_Set_eq GetValue_LSBFlag)

lemma getters_heap_update [simp]:
  "normal_data (st\<lparr>heap := h\<rparr>) x = normal_data st x"
  "normal_capacity (st\<lparr>heap := h\<rparr>) x = normal_capacity st x"
  "normal_sizeFlag (st\<lparr>heap := h\<rparr>) x = normal_sizeFlag st x"
  "small_remainingSizeFlag (st\<lparr>heap := h\<rparr>) x = small_remainingSizeFlag st x"
  "normal_data (st\<lparr>brk := b\<rparr>) x = normal_data st x"
  "normal_capacity (st\<lparr>brk := b\<rparr>) x = normal_capacity st x"
  "normal_sizeFlag (st\<lparr>brk := b\<rparr>) x = normal_sizeFlag st x"
  "small_remainingSizeFlag (st\<lparr>brk := b\<rparr>) x = small_remainingSizeFlag st x"
  by (simp_all add: getter_defs)

lemma observers_heap_update [simp]:
  "IsSmall (st\<lparr>heap := h\<rparr>) x = IsSmall st x"
  "GetSize (st\<lparr>heap := h\<rparr>) x = GetSize st x"
  "CStr (st\<lparr>heap := h\<rparr>) x = CStr st x"
  "IsSmall (st\<lparr>brk := b\<rparr>) x = IsSmall st x"
  "GetSize (st\<lparr>brk := b\<rparr>) x = GetSize st x"
  "CStr (st\<lparr>brk := b\<rparr>) x = CStr st x"
  by (simp_all add: IsSmall_def GetSize_def CStr_def)

subsection \<open>C strings\<close>

lemma strlen_terminated:
  "0 \<notin> set s \<Longrightarrow> strlen (s @ 0 # r) = Some (of_nat (length s))"
  by (induction s) auto

lemma c_text_terminated:
  "0 \<notin> set s \<Longrightarrow> c_text (s @ 0 # r) = Some s"
  by (auto simp add: c_text_def takeWhile_tail)

lemma c_text_SomeD:
  assumes "c_text bs = Some s"
  shows "0 \<notin> set s \<and> length s < length bs \<and> bs ! length s = 0 \<and> take (length s) bs = s"
proof -
  let ?P = "\<lambda>b::byte. b \<noteq> 0"
  from assms have in0: "0 \<in> set bs" and s: "takeWhile ?P bs = s"
    by (auto simp add: c_text_def split: if_splits)
  have "takeWhile ?P bs \<noteq> bs"
    using in0 by (auto simp add: takeWhile_eq_all_conv)
  moreover have "takeWhile ?P bs = take (length (takeWhile ?P bs)) bs"
    by (rule takeWhile_eq_take)
  ultimately have "length (takeWhile ?P bs) \<noteq> length bs"
    by auto
  with length_takeWhile_le [of ?P bs] have less: "length (takeWhile ?P bs) < length bs"
    by simp
  have z: "\<not> ?P (bs ! length (takeWhile ?P bs))"
    using less by (rule nth_length_takeWhile)
  have nz: "0 \<notin> set (takeWhile ?P bs)"
    by (auto dest: set_takeWhileD)
  have tk: "take (length (takeWhile ?P bs)) bs = takeWhile ?P bs"
    by (rule takeWhile_eq_take [symmetric])
  from less z nz tk show ?thesis
    unfolding s by simp
qed

lemma c_text_decompose:
  assumes "c_text bs = Some s"
  shows "bs = s @ 0 # drop (Suc (length s)) bs"
proof -
  from c_text_SomeD [OF assms]
  have l: "length s < length bs" and z: "bs ! length s = 0" and t: "take (length s) bs = s"
    by simp_all
  have "bs = take (length s) bs @ drop (length s) bs" by simp
  also have "drop (length s) bs = bs ! length s # drop (Suc (length s)) bs"
    using l by (simp add: Cons_nth_drop_Suc)
  finally show ?thesis using z t by simp
qed

subsection \<open>Sizes as words\<close>

lemma unat_of_nat_len:
  "n < 2 ^ 64 \<Longrightarrow> unat (of_nat n :: size_t) = n"
  by (simp add: unat_of_nat)

lemma of_nat_less_47:
  "n < 2 ^ 64 \<Longrightarrow> (of_nat n :: size_t) < 47 \<longleftrightarrow> n < 47"
  by (simp add: word_less_nat_alt unat_of_nat_len)

lemma rsf_roundtrip:
  fixes r :: size_t
  assumes "unat r < 128"
  shows "ucast (GetValue (LSBFlag_Set (ucast r :: byte) True)) = r"
proof -
  have "take_bit 7 r = r"
    using assms by (simp add: take_bit_small)
  moreover have "ucast (take_bit 7 (ucast r :: byte)) = take_bit 7 r"
    by (rule bit_word_eqI) (auto simp add: bit_simps)
  ultimately show ?thesis
    by (simp add: LSBFlag_Set_eq GetValue_LSBFlag)
qed

lemma strs_memset [simp]: "strs (memset_buffer x st) x = replicate 48 0"
  by (simp add: memset_buffer_def)

lemma unat_47_minus:
  assumes "n < 47"
  shows "unat (47 - of_nat n :: size_t) = 47 - n"
proof -
  have u: "unat (of_nat n :: size_t) = n"
    using assms by (simp add: unat_of_nat)
  then have "(of_nat n :: size_t) \<le> 47"
    using assms by (simp add: word_le_nat_alt)
  then show ?thesis
    by (simp add: unat_sub u)
qed

lemma String_cstr_small:
  assumes nz: "0 \<notin> set s" and len: "length s < 47"
  shows "String_cstr this (Some (s @ 0 # r)) st =
     Some (upd this (\<lambda>_. s @ 0 # replicate (46 - length s) 0 @
             [LSBFlag_Set (ucast (47 - of_nat (length s) :: size_t)) True]) st)"
proof -
  let ?n = "of_nat (length s) :: size_t"
  let ?R = "LSBFlag_Set (ucast (47 - ?n) :: byte) True"
  have n64: "length s < 2 ^ 64" using len by simp
  have sl: "strlen (s @ 0 # r) = Some ?n"
    using nz by (rule strlen_terminated)
  have lt: "?n < 47"
    using len n64 by (simp add: of_nat_less_47)
  have un: "unat (?n + 1) = length s + 1"
    using len by (simp add: unat_word_ariths unat_of_nat)
  have u1: "put_at 47 [?R] (replicate 48 0) = replicate 47 0 @ [?R]"
    by (simp add: put_at_def)
  have u2: "put_at 0 (s @ [0]) (replicate 47 0 @ [?R]) = s @ 0 # replicate (46 - length s) 0 @ [?R]"
    using len by (simp add: put_at_def)
  show ?thesis
    using len
    by (simp add: String_cstr_def sl lt Let_def memcpy_arr_def un
        set_small_remainingSizeFlag_def memset_buffer_def upd_def u1 u2)
qed

lemma unat_ucast_byte: "unat (ucast (b :: byte) :: size_t) = unat b"
proof -
  have "unat b < 2 ^ 8"
    using unsigned_less [of b] by simp
  then have "unat b < 2 ^ 64"
    by simp
  then show ?thesis
    by (simp add: unsigned_ucast_eq take_bit_nat_eq_self)
qed

lemma small_form_observe:
  assumes nz: "0 \<notin> set s" and len: "length s < 47" and rest: "length rest = 46 - length s"
    and u: "strs st x = s @ 0 # rest @
             [LSBFlag_Set (ucast (47 - of_nat (length s) :: size_t)) True]"
  shows "IsSmall st x" and "GetSize st x = of_nat (length s)" and "CStr st x = SboPtr x"
    and "content st x = Some s" and "valid st x"
proof -
  let ?n = "of_nat (length s) :: size_t"
  let ?R = "LSBFlag_Set (ucast (47 - ?n) :: byte) True"
  have l48: "length (strs st x) = 48"
    using len rest by (simp add: u)
  have rsf: "small_remainingSizeFlag st x = ?R"
    using len rest by (simp add: small_remainingSizeFlag_def u nth_append)
  show small: "IsSmall st x"
    by (simp add: IsSmall_def rsf LSBFlag_Set_eq GetFlag_LSBFlag)
  have r128: "unat (47 - ?n) < 128"
    using len by (simp add: unat_47_minus)
  have gv: "ucast (GetValue ?R) = 47 - ?n"
    using r128 by (rule rsf_roundtrip)
  show size: "GetSize st x = ?n"
    by (simp add: GetSize_def small rsf gv)
  show cstr: "CStr st x = SboPtr x"
    by (simp add: CStr_def small)
  have "47 - length s = Suc (46 - length s)"
    using len by simp
  then have "take 47 (strs st x) = s @ 0 # rest"
    using rest by (simp add: u)
  then show tx: "content st x = Some s"
    using nz by (simp add: content_def cstr text_at_def c_text_terminated)
  have "unat (GetValue ?R) = 47 - length s"
  proof -
    have "unat (ucast (GetValue ?R) :: size_t) = unat (GetValue ?R)"
      by (rule unat_ucast_byte)
    then show ?thesis using gv len by (simp add: unat_47_minus)
  qed
  then have "1 \<le> GetValue ?R \<and> GetValue ?R \<le> 47"
    using len by (simp add: word_le_nat_alt)
  then show "valid st x"
    using len by (simp add: valid_def l48 small rsf tx size unat_of_nat)
qed

lemma large_union_build:
  "put_at 0 (store64 p) (put_at 8 (store64 c) (put_at 40 (store64 v) (replicate 48 0)))
     = store64 p @ store64 c @ replicate 24 0 @ store64 v"
  by (simp add: put_at_def length_store64)

lemma new_char_ok:
  "can_alloc st \<Longrightarrow>
   new_char n st = Some (brk st,
     st\<lparr>heap := (heap st)(brk st \<mapsto> map (junk st (brk st)) [0..<unat n]), brk := brk st + 1\<rparr>)"
  by (simp add: new_char_def can_alloc_def)

lemma can_alloc_setters [simp]:
  "can_alloc (set_normal_data x p st) = can_alloc st"
  "can_alloc (set_normal_capacity x c st) = can_alloc st"
  "can_alloc (set_normal_sizeFlag x v st) = can_alloc st"
  "can_alloc (set_small_remainingSizeFlag x b st) = can_alloc st"
  "can_alloc (memset_buffer x st) = can_alloc st"
  "can_alloc (memcpy_buffer x y st) = can_alloc st"
  "can_alloc (upd x f st) = can_alloc st"
  by (simp_all add: can_alloc_def)

lemma strs_field_update:
  "strs (set_normal_data x p st) x = put_at 0 (store64 p) (strs st x)"
  "strs (set_normal_capacity x c st) x = put_at 8 (store64 c) (strs st x)"
  "strs (set_normal_sizeFlag x v st) x = put_at 40 (store64 v) (strs st x)"
  "strs (set_small_remainingSizeFlag x b st) x = put_at 47 [b] (strs st x)"
  by (simp_all add: setter_defs)

lemma String_cstr_large:
  assumes nz: "0 \<notin> set s" and len: "47 \<le> length s" and bound: "length s < 2 ^ 63"
    and alloc: "can_alloc st"
  obtains st' where "String_cstr this (Some (s @ 0 # r)) st = Some st'"
    and "strs st' this = store64 (brk st) @ store64 (of_nat (length s) + 1) @ replicate 24 0 @
               store64 (LSBFlag_Set (of_nat (length s)) False)"
    and "\<And>y. y \<noteq> this \<Longrightarrow> strs st' y = strs st y"
    and "heap st' = (heap st)(brk st \<mapsto> s @ [0])"
    and "brk st' = brk st + 1" and "junk st' = junk st"
proof -
  let ?n = "of_nat (length s) :: size_t"
  have n64: "length s < 2 ^ 64" using bound by simp
  have sl: "strlen (s @ 0 # r) = Some ?n"
    using nz by (rule strlen_terminated)
  have lt: "\<not> ?n < 47"
    using len n64 by (simp add: of_nat_less_47)
  have un: "unat (?n + 1) = length s + 1"
    using bound by (simp add: unat_word_ariths unat_of_nat)
  define st3 where "st3 = set_normal_capacity this (?n + 1)
      (set_normal_sizeFlag this (LSBFlag_Set ?n False) (memset_buffer this st))"
  define st4 where "st4 = st3\<lparr>heap := (heap st3)(brk st3 \<mapsto> map (junk st3 (brk st3)) [0..<unat (?n + 1)]),
      brk := brk st3 + 1\<rparr>"
  define st5 where "st5 = set_normal_data this (brk st) st4"
  define st6 where "st6 = st5\<lparr>heap := (heap st5)(brk st \<mapsto> s @ [0])\<rparr>"
  have cap3: "normal_capacity st3 this = ?n + 1"
    by (simp add: st3_def)
  have alloc3: "can_alloc st3"
    using alloc by (simp add: st3_def)
  have new: "new_char (?n + 1) st3 = Some (brk st3, st4)"
    unfolding st4_def using alloc3 by (rule new_char_ok)
  have brk3: "brk st3 = brk st" and junk3: "junk st3 = junk st" and heap3: "heap st3 = heap st"
    by (simp_all add: st3_def)
  have data5: "normal_data st5 this = brk st"
    by (simp add: st5_def)
  have heap5: "heap st5 (brk st) = Some (map (junk st (brk st)) [0..<Suc (length s)])"
    by (simp add: st5_def st4_def brk3 junk3 un)
  have nonnull: "brk st \<noteq> 0"
    using alloc by (simp add: can_alloc_def)
  have cpy: "memcpy_arr (HeapPtr (brk st)) 0 (s @ 0 # r) (?n + 1) st5 = Some st6"
    by (simp add: memcpy_arr_def un heap5 st6_def put_at_def nonnull)
  have run: "String_cstr this (Some (s @ 0 # r)) st = Some st6"
    by (simp add: String_cstr_def sl lt Let_def st3_def [symmetric] cap3 new brk3
        st5_def [symmetric] data5 cpy)
  have "strs st6 this = store64 (brk st) @ store64 (?n + 1) @ replicate 24 0 @
               store64 (LSBFlag_Set ?n False)"
    by (simp add: st6_def st5_def st4_def st3_def strs_field_update large_union_build)
  moreover have "strs st6 y = strs st y" if "y \<noteq> this" for y
    using that by (simp add: st6_def st5_def st4_def st3_def)
  moreover have "heap st6 = (heap st)(brk st \<mapsto> s @ [0])"
    by (simp add: st6_def st5_def st4_def brk3 heap3)
  moreover have "brk st6 = brk st + 1" "junk st6 = junk st"
    by (simp_all add: st6_def st5_def st4_def brk3 junk3)
  ultimately show ?thesis
    using run that by blast
qed

lemma large_form_fields:
  assumes u: "strs st x = store64 p @ store64 c @ pad @ store64 v" and pad: "length pad = 24"
  shows "length (strs st x) = 48"
    and "normal_data st x = p" and "normal_capacity st x = c" and "normal_sizeFlag st x = v"
    and "small_remainingSizeFlag st x = ucast (drop_bit 56 v)"
proof -
  show "length (strs st x) = 48"
    by (simp add: u pad length_store64)
  show "normal_data st x = p"
    by (simp add: normal_data_def u length_store64 load64_store64)
  show "normal_capacity st x = c"
    by (simp add: normal_capacity_def u length_store64 load64_store64)
  show "normal_sizeFlag st x = v"
    by (simp add: normal_sizeFlag_def u pad length_store64 load64_store64)
  have "strs st x ! 47 = store64 v ! 7"
    by (simp add: u pad length_store64 nth_append)
  then show "small_remainingSizeFlag st x = ucast (drop_bit 56 v)"
    by (simp add: small_remainingSizeFlag_def store64_last)
qed

lemma large_form_observe:
  assumes u: "strs st x = store64 p @ store64 c @ pad @ store64 (LSBFlag_Set n False)"
    and pad: "length pad = 24" and n: "unat n < 2 ^ 63" and b: "\<not> bit n 55"
  shows "\<not> IsSmall st x" and "GetSize st x = n" and "CStr st x = HeapPtr p"
proof -
  note f = large_form_fields [OF u pad]
  show small: "\<not> IsSmall st x"
    using b
    by (simp add: IsSmall_def f GetFlag_top_byte LSBFlag_Set_eq bit_LSBFlag)
  show "GetSize st x = n"
    using n by (simp add: GetSize_def small f GetValue_size)
  show "CStr st x = HeapPtr p"
    by (simp add: CStr_def small f)
qed

lemma large_form_valid:
  assumes u: "strs st x = store64 p @ store64 c @ pad @ store64 (LSBFlag_Set (of_nat (length s)) False)"
    and pad: "length pad = 24" and n: "length s < 2 ^ 55" and nz: "0 \<notin> set s"
    and p: "p \<noteq> 0" and blk: "heap st p = Some (s @ 0 # r)" and c: "unat c = Suc (length s + length r)"
  shows "valid st x" and "content st x = Some s"
proof -
  have n': "unat (of_nat (length s) :: size_t) < 2 ^ 55"
    using n by (simp add: unat_of_nat)
  have n63: "unat (of_nat (length s) :: size_t) < 2 ^ 63"
    using n' by (rule less_trans) simp
  note f = large_form_fields [OF u pad]
  note o = large_form_observe [OF u pad n63 bit55_small [OF n']]
  show tx: "content st x = Some s"
    using nz p by (simp add: content_def o text_at_def blk c_text_terminated)
  show "valid st x"
    using n by (simp add: valid_def f o tx p blk c unat_of_nat)
qed

text \<open>What the constructor from a C string leaves behind.\<close>

lemma String_cstr_effect:
  assumes nz: "0 \<notin> set s" and bound: "length s < 2 ^ 55"
    and alloc: "47 \<le> length s \<Longrightarrow> can_alloc st"
  obtains st' where "String_cstr this (Some (s @ 0 # r)) st = Some st'"
    and "valid st' this" and "content st' this = Some s"
    and "GetSize st' this = of_nat (length s)"
    and "IsSmall st' this \<longleftrightarrow> length s < 47"
    and "\<And>y. y \<noteq> this \<Longrightarrow> strs st' y = strs st y"
    and "heap st' = (if length s < 47 then heap st else (heap st)(brk st \<mapsto> s @ [0]))"
    and "brk st' = (if length s < 47 then brk st else brk st + 1)"
    and "junk st' = junk st"
    and "47 \<le> length s \<Longrightarrow> normal_data st' this = brk st \<and> normal_capacity st' this = of_nat (length s) + 1"
proof (cases "length s < 47")
  case True
  let ?st' = "upd this (\<lambda>_. s @ 0 # replicate (46 - length s) 0 @
             [LSBFlag_Set (ucast (47 - of_nat (length s) :: size_t)) True]) st"
  have run: "String_cstr this (Some (s @ 0 # r)) st = Some ?st'"
    using nz True by (rule String_cstr_small)
  have u: "strs ?st' this = s @ 0 # replicate (46 - length s) 0 @
             [LSBFlag_Set (ucast (47 - of_nat (length s) :: size_t)) True]"
    by simp
  have rest: "length (replicate (46 - length s) (0::byte)) = 46 - length s"
    by simp
  note o = small_form_observe [OF nz True rest u]
  show ?thesis
    using True by (intro that [OF run]) (simp_all add: o)
next
  case False
  then have len: "47 \<le> length s" by simp
  have b63: "length s < 2 ^ 63"
    using bound by (rule less_trans) simp
  from String_cstr_large [OF nz len b63 alloc [OF len], of this r]
  obtain st' where run: "String_cstr this (Some (s @ 0 # r)) st = Some st'"
    and u: "strs st' this = store64 (brk st) @ store64 (of_nat (length s) + 1) @ replicate 24 0 @
               store64 (LSBFlag_Set (of_nat (length s)) False)"
    and other: "\<And>y. y \<noteq> this \<Longrightarrow> strs st' y = strs st y"
    and heap': "heap st' = (heap st)(brk st \<mapsto> s @ [0])"
    and brk': "brk st' = brk st + 1" and junk': "junk st' = junk st"
    by blast
  have n': "unat (of_nat (length s) :: size_t) < 2 ^ 55"
    using bound by (simp add: unat_of_nat)
  have pad: "length (replicate 24 (0::byte)) = 24" by simp
  have n63: "unat (of_nat (length s) :: size_t) < 2 ^ 63"
    using n' by (rule less_trans) simp
  note f = large_form_fields [OF u pad]
  note o = large_form_observe [OF u pad n63 bit55_small [OF n']]
  have p: "brk st \<noteq> 0"
    using alloc [OF len] by (simp add: can_alloc_def)
  have blk: "heap st' (brk st) = Some (s @ 0 # [])"
    by (simp add: heap')
  have c: "unat (of_nat (length s) + 1 :: size_t) = Suc (length s + length ([]::byte list))"
    using b63 by (simp add: unat_word_ariths unat_of_nat)
  note v = large_form_valid [OF u pad bound nz p blk c]
  show ?thesis
    using False by (intro that [OF run]) (simp_all add: o f v other heap' brk' junk')
qed

lemma can_alloc_init: "can_alloc st_init"
  by (simp add: can_alloc_def st_init_def)

lemma String_cstr_null:
  "String_cstr this None st = String_cstr this (Some (0 # r)) st"
proof -
  have "String_cstr this (Some ([] @ 0 # r)) st =
     Some (upd this (\<lambda>_. [] @ 0 # replicate (46 - length ([]::byte list)) 0 @
             [LSBFlag_Set (ucast (47 - of_nat (length ([]::byte list)) :: size_t)) True]) st)"
    by (rule String_cstr_small) simp_all
  moreover have "String_cstr this None st =
     Some (upd this (\<lambda>_. 0 # replicate 46 0 @ [LSBFlag_Set (ucast (47 :: size_t)) True]) st)"
    by (simp add: String_cstr_def Let_def set_small_sboBuffer_def setter_defs upd_def put_at_def
        numeral_eq_Suc)
  ultimately show ?thesis by simp
qed

text \<open>
  C2. For every byte sequence \<open>s\<close> (free of NUL, as the text of a C string is, and
  shorter than \<open>2 ^ 55\<close> bytes), the string constructed from it has \<open>GetSize()\<close> equal to
  the length of \<open>s\<close> and \<open>CStr()\<close> showing \<open>s\<close>; a null pointer gives the empty string,
  and the same object as the empty sequence does.
\<close>

theorem String_cstr_size_and_text:
  assumes "0 \<notin> set s" and "length s < 2 ^ 55" and "47 \<le> length s \<longrightarrow> can_alloc st"
  shows "(\<exists>st'. String_cstr this (Some (s @ [0])) st = Some st' \<and>
            unat (GetSize st' this) = length s \<and> content st' this = Some s)
       \<and> (\<exists>st'. String_cstr this None st = Some st' \<and>
            GetSize st' this = 0 \<and> content st' this = Some [])
       \<and> String_cstr this None st = String_cstr this (Some [0]) st"
proof (intro conjI)
  from assms(3) have alloc: "47 \<le> length s \<Longrightarrow> can_alloc st" by simp
  from String_cstr_effect [OF assms(1,2) alloc, of this "[]"]
  obtain st' where "String_cstr this (Some (s @ [0])) st = Some st'"
    and "content st' this = Some s" and "GetSize st' this = of_nat (length s)"
    by blast
  moreover have "unat (of_nat (length s) :: size_t) = length s"
    using assms(2) by (simp add: unat_of_nat)
  ultimately show "\<exists>st'. String_cstr this (Some (s @ [0])) st = Some st' \<and>
            unat (GetSize st' this) = length s \<and> content st' this = Some s"
    by auto
next
  show null: "String_cstr this None st = String_cstr this (Some [0]) st"
    by (rule String_cstr_null)
  have e: "0 \<notin> set ([]::byte list)" "length ([]::byte list) < 2 ^ 55"
    and a: "47 \<le> length ([]::byte list) \<Longrightarrow> can_alloc st"
    by simp_all
  from String_cstr_effect [OF e a, of this "[]"]
  obtain st' where "String_cstr this (Some ([] @ [0])) st = Some st'"
    and "content st' this = Some []" and "GetSize st' this = of_nat (length ([]::byte list))"
    by blast
  then show "\<exists>st'. String_cstr this None st = Some st' \<and>
            GetSize st' this = 0 \<and> content st' this = Some []"
    by (simp add: null)
qed

theorem String_cstr_size_and_text_witness:
  "(\<exists>st'. String_cstr 0 (Some ([72, 101, 108, 108, 111] @ [0])) st_init = Some st' \<and>
            unat (GetSize st' 0) = length [72, 101, 108, 108, 111 :: byte] \<and>
            content st' 0 = Some [72, 101, 108, 108, 111])
       \<and> (\<exists>st'. String_cstr 0 None st_init = Some st' \<and>
            GetSize st' 0 = 0 \<and> content st' 0 = Some [])
       \<and> String_cstr 0 None st_init = String_cstr 0 (Some [0]) st_init"
proof -
  have "0 \<notin> set [72, 101, 108, 108, 111 :: byte]"
    by simp
  moreover have "length [72, 101, 108, 108, 111 :: byte] < 2 ^ 55"
    by simp
  moreover have "47 \<le> length [72, 101, 108, 108, 111 :: byte] \<longrightarrow> can_alloc st_init"
    by simp
  ultimately show ?thesis
    by (rule String_cstr_size_and_text)
qed

text \<open>
  C5. A sequence of at most 46 bytes (\<open>sboSize - 2\<close>) is stored inline and nothing is
  allocated; one of 47 bytes or more is stored in a new heap block of exactly
  \<open>length + 1\<close> bytes, which is the recorded capacity.
\<close>

theorem String_cstr_mode_boundary:
  assumes "0 \<notin> set s" and "length s < 2 ^ 55" and "47 \<le> length s \<longrightarrow> can_alloc st"
  shows "\<exists>st'. String_cstr this (Some (s @ [0])) st = Some st' \<and>
     (length s \<le> 46 \<longrightarrow> IsSmall st' this \<and> heap st' = heap st) \<and>
     (47 \<le> length s \<longrightarrow> \<not> IsSmall st' this \<and> CStr st' this = HeapPtr (brk st) \<and>
        heap st' = (heap st)(brk st \<mapsto> s @ [0]) \<and>
        unat (normal_capacity st' this) = length s + 1)"
proof -
  from assms(3) have alloc: "47 \<le> length s \<Longrightarrow> can_alloc st" by simp
  from String_cstr_effect [OF assms(1,2) alloc, of this "[]"]
  obtain st' where run: "String_cstr this (Some (s @ [0])) st = Some st'"
    and small: "IsSmall st' this \<longleftrightarrow> length s < 47"
    and heap': "heap st' = (if length s < 47 then heap st else (heap st)(brk st \<mapsto> s @ [0]))"
    and large: "47 \<le> length s \<Longrightarrow>
          normal_data st' this = brk st \<and> normal_capacity st' this = of_nat (length s) + 1"
    by blast
  have "unat (of_nat (length s) + 1 :: size_t) = length s + 1"
    using assms(2) by (simp add: unat_word_ariths unat_of_nat)
  with run small heap' large show ?thesis
    by (auto simp add: CStr_def)
qed

theorem String_cstr_mode_boundary_witness:
  "(\<exists>st'. String_cstr 0 (Some (replicate 46 65 @ [0])) st_init = Some st' \<and>
      IsSmall st' 0 \<and> heap st' = heap st_init)
   \<and> (\<exists>st'. String_cstr 0 (Some (replicate 47 65 @ [0])) st_init = Some st' \<and>
      \<not> IsSmall st' 0 \<and> CStr st' 0 = HeapPtr (brk st_init) \<and>
      heap st' = (heap st_init)(brk st_init \<mapsto> replicate 47 65 @ [0]) \<and>
      unat (normal_capacity st' 0) = 48)"
proof
  have "0 \<notin> set (replicate 46 (65 :: byte))" and "length (replicate 46 (65 :: byte)) < 2 ^ 55"
    and "47 \<le> length (replicate 46 (65 :: byte)) \<longrightarrow> can_alloc st_init"
    by simp_all
  from String_cstr_mode_boundary [OF this, of 0]
  show "\<exists>st'. String_cstr 0 (Some (replicate 46 65 @ [0])) st_init = Some st' \<and>
      IsSmall st' 0 \<and> heap st' = heap st_init"
    by simp
next
  have "0 \<notin> set (replicate 47 (65 :: byte))" and "length (replicate 47 (65 :: byte)) < 2 ^ 55"
    and "47 \<le> length (replicate 47 (65 :: byte)) \<longrightarrow> can_alloc st_init"
    by (simp_all add: can_alloc_init)
  from String_cstr_mode_boundary [OF this, of 0]
  show "\<exists>st'. String_cstr 0 (Some (replicate 47 65 @ [0])) st_init = Some st' \<and>
      \<not> IsSmall st' 0 \<and> CStr st' 0 = HeapPtr (brk st_init) \<and>
      heap st' = (heap st_init)(brk st_init \<mapsto> replicate 47 65 @ [0]) \<and>
      unat (normal_capacity st' 0) = 48"
    by simp
qed

subsection \<open>The discriminant in heap mode\<close>

lemma load64_top:
  assumes "length bs = 8"
  shows "ucast (drop_bit 56 (load64 bs)) = (bs ! 7 :: byte)"
proof -
  from assms obtain b0 b1 b2 b3 b4 b5 b6 b7 where bs: "bs = [b0, b1, b2, b3, b4, b5, b6, b7]"
    by (auto simp add: length_Suc_conv numeral_eq_Suc)
  show ?thesis
    unfolding bs load64_8
    by (rule bit_word_eqI) (auto simp add: bit_simps dest: bit_imp_le_length)
qed

lemma rsf_is_top_of_sizeFlag:
  assumes "length (strs st x) = 48"
  shows "small_remainingSizeFlag st x = ucast (drop_bit 56 (normal_sizeFlag st x))"
proof -
  have "take 8 (drop 40 (strs st x)) ! 7 = strs st x ! 47"
    using assms by simp
  then show ?thesis
    using assms by (simp add: small_remainingSizeFlag_def normal_sizeFlag_def load64_top)
qed

lemma IsSmall_bit56:
  "length (strs st x) = 48 \<Longrightarrow> IsSmall st x = bit (normal_sizeFlag st x) 56"
  by (simp add: IsSmall_def rsf_is_top_of_sizeFlag GetFlag_top_byte)

lemma unat_GetValue64:
  fixes v :: size_t
  shows "unat (GetValue v) < 2 ^ 63"
proof -
  have "unat v < 2 ^ 64"
    using unsigned_less [of v] by simp
  then show ?thesis
    by (simp add: GetValue_def drop_bit_eq_div unat_div)
qed

lemma large_size_bits:
  assumes "length (strs st x) = 48" and "\<not> IsSmall st x"
  shows "\<not> bit (GetSize st x) 55" and "unat (GetSize st x) < 2 ^ 63"
proof -
  show "\<not> bit (GetSize st x) 55"
    using assms by (simp add: GetSize_def IsSmall_bit56 GetValue_def bit_drop_bit_eq)
  show "unat (GetSize st x) < 2 ^ 63"
    using assms unat_GetValue64 [of "normal_sizeFlag st x"] by (simp add: GetSize_def)
qed

subsection \<open>Moving\<close>

lemma LSBFlag_Set_zero [simp]: "LSBFlag_Set 0 False = 0"
  by (simp add: LSBFlag_Set_def)

lemma GetFlag_zero [simp]: "\<not> GetFlag 0"
  by (simp add: GetFlag_def)

lemma GetValue_zero [simp]: "GetValue 0 = 0"
  by (simp add: GetValue_def)

lemma observers_setters_other [simp]:
  "y \<noteq> x \<Longrightarrow> IsSmall (set_normal_data x p st) y = IsSmall st y"
  "y \<noteq> x \<Longrightarrow> IsSmall (set_normal_capacity x c st) y = IsSmall st y"
  "y \<noteq> x \<Longrightarrow> IsSmall (set_normal_sizeFlag x v st) y = IsSmall st y"
  "y \<noteq> x \<Longrightarrow> IsSmall (set_small_remainingSizeFlag x r st) y = IsSmall st y"
  "y \<noteq> x \<Longrightarrow> IsSmall (memset_buffer x st) y = IsSmall st y"
  "y \<noteq> x \<Longrightarrow> IsSmall (memcpy_buffer x z st) y = IsSmall st y"
  "y \<noteq> x \<Longrightarrow> GetSize (set_normal_data x p st) y = GetSize st y"
  "y \<noteq> x \<Longrightarrow> GetSize (set_normal_capacity x c st) y = GetSize st y"
  "y \<noteq> x \<Longrightarrow> GetSize (set_normal_sizeFlag x v st) y = GetSize st y"
  "y \<noteq> x \<Longrightarrow> GetSize (set_small_remainingSizeFlag x r st) y = GetSize st y"
  "y \<noteq> x \<Longrightarrow> GetSize (memset_buffer x st) y = GetSize st y"
  "y \<noteq> x \<Longrightarrow> GetSize (memcpy_buffer x z st) y = GetSize st y"
  "y \<noteq> x \<Longrightarrow> CStr (set_normal_data x p st) y = CStr st y"
  "y \<noteq> x \<Longrightarrow> CStr (set_normal_capacity x c st) y = CStr st y"
  "y \<noteq> x \<Longrightarrow> CStr (set_normal_sizeFlag x v st) y = CStr st y"
  "y \<noteq> x \<Longrightarrow> CStr (set_small_remainingSizeFlag x r st) y = CStr st y"
  "y \<noteq> x \<Longrightarrow> CStr (memset_buffer x st) y = CStr st y"
  "y \<noteq> x \<Longrightarrow> CStr (memcpy_buffer x z st) y = CStr st y"
  by (simp_all add: IsSmall_def GetSize_def CStr_def)

lemma large_fields_after_write:
  fixes p :: addr and c :: size_t
  assumes l: "length (strs st x) = 48" and n: "unat n < 2 ^ 63" and b: "\<not> bit n 55"
  defines "st' \<equiv> set_normal_data x p (set_normal_capacity x c
                    (set_normal_sizeFlag x (LSBFlag_Set n False) st))"
  shows "length (strs st' x) = 48" and "\<not> IsSmall st' x" and "GetSize st' x = n"
    and "normal_data st' x = p" and "normal_capacity st' x = c" and "CStr st' x = HeapPtr p"
proof -
  show "length (strs st' x) = 48"
    using l by (simp add: st'_def)
  have rsf: "small_remainingSizeFlag st' x = ucast (drop_bit 56 (LSBFlag_Set n False))"
    using l by (simp add: st'_def)
  show small: "\<not> IsSmall st' x"
    using b by (simp add: IsSmall_def rsf GetFlag_top_byte LSBFlag_Set_eq bit_LSBFlag)
  show "GetSize st' x = n"
    using l n by (simp add: GetSize_def small GetValue_size) (simp add: st'_def GetValue_size)
  show d: "normal_data st' x = p"
    using l by (simp add: st'_def)
  show "normal_capacity st' x = c"
    using l by (simp add: st'_def)
  show "CStr st' x = HeapPtr p"
    by (simp add: CStr_def small d)
qed

lemma move_heap_effect:
  assumes ne: "this \<noteq> other" and lt: "length (strs st this) = 48"
    and lo: "length (strs st other) = 48" and large: "\<not> IsSmall st other"
  defines "st' \<equiv> move_heap this other st"
  shows "length (strs st' this) = 48"
    and "\<not> IsSmall st' this" and "GetSize st' this = GetSize st other"
    and "normal_data st' this = normal_data st other"
    and "normal_capacity st' this = normal_capacity st other"
    and "CStr st' this = CStr st other"
    and "moved_from st' other"
    and "\<And>z. z \<noteq> this \<Longrightarrow> z \<noteq> other \<Longrightarrow> strs st' z = strs st z"
    and "heap st' = heap st" and "brk st' = brk st" and "junk st' = junk st"
proof -
  note ne' = ne [symmetric]
  define m where "m = set_normal_data this (normal_data st other)
     (set_normal_capacity this (normal_capacity st other)
       (set_normal_sizeFlag this (LSBFlag_Set (GetSize st other) False) st))"
  have st': "st' = set_normal_data other 0 (set_normal_capacity other 0 (set_normal_sizeFlag other 0 m))"
    using ne ne' by (simp add: st'_def move_heap_def Let_def m_def)
  note bits = large_size_bits [OF lo large]
  note w = large_fields_after_write [OF lt bits(2) bits(1),
      where p = "normal_data st other" and c = "normal_capacity st other", folded m_def]
  have mo: "strs m other = strs st other"
    using ne' by (simp add: m_def)
  have thisfix: "strs st' this = strs m this"
    using ne by (simp add: st')
  show "length (strs st' this) = 48"
    by (simp add: thisfix w)
  show "\<not> IsSmall st' this"
    using w(2) observers_cong(1) [OF thisfix] by simp
  show "GetSize st' this = GetSize st other"
    using w(3) observers_cong(2) [OF thisfix] by simp
  show "normal_data st' this = normal_data st other"
    using w(4) getters_cong(1) [OF thisfix] by simp
  show "normal_capacity st' this = normal_capacity st other"
    using w(5) getters_cong(2) [OF thisfix] by simp
  show "CStr st' this = CStr st other"
    using w(6) observers_cong(3) [OF thisfix] large by (simp add: CStr_def)
  have lmo: "length (strs m other) = 48"
    by (simp add: mo lo)
  have z: "unat (0 :: size_t) < 2 ^ 63" "\<not> bit (0 :: size_t) 55"
    by simp_all
  from large_fields_after_write [OF lmo z, where p = 0 and c = 0]
  show "moved_from st' other"
    by (simp add: moved_from_def st')
  show "strs st' z = strs st z" if "z \<noteq> this" "z \<noteq> other" for z
    using that by (simp add: st' m_def)
  show "heap st' = heap st" "brk st' = brk st" "junk st' = junk st"
    by (simp_all add: st' m_def)
qed

subsection \<open>What depends on what\<close>

lemma content_small:
  "IsSmall st x \<Longrightarrow> content st x = c_text (take 47 (strs st x))"
  by (simp add: content_def CStr_def text_at_def)

lemma content_large:
  "\<not> IsSmall st x \<Longrightarrow> normal_data st x \<noteq> 0 \<Longrightarrow>
   content st x = Option.bind (heap st (normal_data st x)) c_text"
  by (simp add: content_def CStr_def text_at_def)

lemma content_null:
  "\<not> IsSmall st x \<Longrightarrow> normal_data st x = 0 \<Longrightarrow> content st x = None"
  by (simp add: content_def CStr_def text_at_def)

lemma valid_length: "valid st x \<Longrightarrow> length (strs st x) = 48"
  by (simp add: valid_def)

lemma valid_content: "valid st x \<Longrightarrow> \<exists>a. content st x = Some a \<and> length a = unat (GetSize st x)"
  by (auto simp add: valid_def split: option.splits)

lemma valid_largeD:
  assumes "valid st x" and "\<not> IsSmall st x"
  obtains blk a where "normal_data st x \<noteq> 0" and "heap st (normal_data st x) = Some blk"
    and "length blk = unat (normal_capacity st x)" and "c_text blk = Some a"
    and "content st x = Some a" and "length a = unat (GetSize st x)"
proof -
  from assms have p: "normal_data st x \<noteq> 0"
    by (simp add: valid_def)
  from assms obtain blk where blk: "heap st (normal_data st x) = Some blk"
    and len: "length blk = unat (normal_capacity st x)"
    by (auto simp add: valid_def split: option.splits)
  from valid_content [OF assms(1)] obtain a where a: "content st x = Some a"
    and la: "length a = unat (GetSize st x)"
    by blast
  from a have "c_text blk = Some a"
    using assms(2) p blk by (simp add: content_large)
  with p blk len a la show ?thesis
    using that by blast
qed

lemma same_bytes:
  assumes "strs st' x = strs st y"
  shows "IsSmall st' x = IsSmall st y" and "GetSize st' x = GetSize st y"
    and "normal_data st' x = normal_data st y" and "normal_capacity st' x = normal_capacity st y"
    and "length (strs st' x) = length (strs st y)"
  using assms by (simp_all add: IsSmall_def GetSize_def getter_defs)

lemma valid_same_bytes:
  assumes v: "valid st y" and u: "strs st' x = strs st y"
    and h: "\<not> IsSmall st y \<Longrightarrow> heap st' (normal_data st y) = heap st (normal_data st y)"
  shows "valid st' x" and "content st' x = content st y"
proof -
  have g: "small_remainingSizeFlag st' x = small_remainingSizeFlag st y"
    "normal_data st' x = normal_data st y" "normal_capacity st' x = normal_capacity st y"
    "normal_sizeFlag st' x = normal_sizeFlag st y"
    by (simp_all add: getter_defs u)
  have o: "IsSmall st' x = IsSmall st y" "GetSize st' x = GetSize st y"
    by (simp_all add: IsSmall_def GetSize_def g)
  show c: "content st' x = content st y"
  proof (cases "IsSmall st y")
    case True
    then show ?thesis by (simp add: content_small o u)
  next
    case False
    then show ?thesis
      using h by (cases "normal_data st y = 0") (simp_all add: content_large content_null o g)
  qed
  show "valid st' x"
  proof (cases "IsSmall st y")
    case True
    with v show ?thesis by (simp add: valid_def c o g u split: option.splits)
  next
    case False
    with v h show ?thesis by (simp add: valid_def c o g u split: option.splits)
  qed
qed

lemma valid_same_fields:
  assumes v: "valid st y" and large: "\<not> IsSmall st y"
    and l: "length (strs st' x) = 48" and large': "\<not> IsSmall st' x"
    and d: "normal_data st' x = normal_data st y"
    and c: "normal_capacity st' x = normal_capacity st y"
    and s: "GetSize st' x = GetSize st y"
    and h: "heap st' (normal_data st y) = heap st (normal_data st y)"
  shows "valid st' x" and "content st' x = content st y"
proof -
  from v large have p: "normal_data st y \<noteq> 0"
    by (simp add: valid_def)
  show ct: "content st' x = content st y"
    using large large' p by (simp add: content_large d h)
  show "valid st' x"
    using v large large' p by (simp add: valid_def l d c s h ct split: option.splits)
qed

lemma moved_from_same_bytes:
  assumes m: "moved_from st y" and u: "strs st' x = strs st y"
  shows "moved_from st' x"
proof -
  have g: "small_remainingSizeFlag st' x = small_remainingSizeFlag st y"
    "normal_data st' x = normal_data st y" "normal_capacity st' x = normal_capacity st y"
    "normal_sizeFlag st' x = normal_sizeFlag st y"
    by (simp_all add: getter_defs u)
  have o: "IsSmall st' x = IsSmall st y" "GetSize st' x = GetSize st y"
    by (simp_all add: IsSmall_def GetSize_def g)
  show ?thesis
    using m by (simp add: moved_from_def g o u)
qed

subsection \<open>Destruction\<close>

lemma String_dtor_null:
  "normal_data st x = 0 \<Longrightarrow> String_dtor x st = Some st"
  by (simp add: String_dtor_def)

lemma String_dtor_small:
  "IsSmall st x \<Longrightarrow> String_dtor x st = Some st"
  by (simp add: String_dtor_def)

lemma String_dtor_large:
  assumes "\<not> IsSmall st x" and "normal_data st x \<noteq> 0" and "heap st (normal_data st x) \<noteq> None"
  shows "String_dtor x st =
    Some (set_normal_data x 0 (st\<lparr>heap := (heap st)(normal_data st x := None)\<rparr>))"
  using assms by (simp add: String_dtor_def delete_arr_def)

lemma String_dtor_effect:
  assumes "valid st x \<or> moved_from st x"
  obtains st' where "String_dtor x st = Some st'"
    and "heap st' = (if \<not> IsSmall st x \<and> normal_data st x \<noteq> 0
                     then (heap st)(normal_data st x := None) else heap st)"
    and "\<And>z. z \<noteq> x \<Longrightarrow> strs st' z = strs st z"
    and "length (strs st' x) = 48" and "brk st' = brk st" and "junk st' = junk st"
proof -
  from assms have l: "length (strs st x) = 48"
    by (auto simp add: valid_def moved_from_def)
  consider (small) "IsSmall st x" | (null) "\<not> IsSmall st x" "normal_data st x = 0"
    | (large) "\<not> IsSmall st x" "normal_data st x \<noteq> 0"
    by blast
  then show ?thesis
  proof cases
    case small
    then show ?thesis
      using l by (intro that [of st]) (simp_all add: String_dtor_small)
  next
    case null
    then show ?thesis
      using l by (intro that [of st]) (simp_all add: String_dtor_null)
  next
    case large
    with assms have "valid st x"
      by (auto simp add: moved_from_def)
    with large have "heap st (normal_data st x) \<noteq> None"
      by (auto elim: valid_largeD)
    from String_dtor_large [OF large this]
    have run: "String_dtor x st =
        Some (set_normal_data x 0 (st\<lparr>heap := (heap st)(normal_data st x := None)\<rparr>))" .
    show ?thesis
      using l large by (intro that [OF run]) (simp_all add: setter_defs length_put_at length_store64)
  qed
qed

subsection \<open>The move constructor and move assignment\<close>

lemma String_move_heap_eq:
  "this \<noteq> other \<Longrightarrow> \<not> IsSmall st other \<Longrightarrow>
   String_move this other st = move_heap this other (memset_buffer this st)"
  by (simp add: String_move_def Let_def)

lemma String_move_small_eq:
  "this \<noteq> other \<Longrightarrow> IsSmall st other \<Longrightarrow>
   String_move this other st = memcpy_buffer this other (memset_buffer this st)"
  by (simp add: String_move_def Let_def)

lemma move_heap_after_memset:
  assumes ne: "this \<noteq> other" and lo: "length (strs st other) = 48" and large: "\<not> IsSmall st other"
  defines "st' \<equiv> move_heap this other (memset_buffer this st)"
  shows "length (strs st' this) = 48"
    and "\<not> IsSmall st' this" and "GetSize st' this = GetSize st other"
    and "normal_data st' this = normal_data st other"
    and "normal_capacity st' this = normal_capacity st other"
    and "CStr st' this = CStr st other"
    and "moved_from st' other"
    and "\<And>z. z \<noteq> this \<Longrightarrow> z \<noteq> other \<Longrightarrow> strs st' z = strs st z"
    and "heap st' = heap st" and "brk st' = brk st" and "junk st' = junk st"
proof -
  let ?m = "memset_buffer this st"
  note ne' = ne [symmetric]
  have lt: "length (strs ?m this) = 48" by simp
  have lo': "length (strs ?m other) = 48" using lo ne' by simp
  have large': "\<not> IsSmall ?m other" using large ne' by simp
  note e = move_heap_effect [OF ne lt lo' large', folded st'_def]
  show "length (strs st' this) = 48" "\<not> IsSmall st' this" "moved_from st' other"
    by (rule e)+
  show "GetSize st' this = GetSize st other" "normal_data st' this = normal_data st other"
    "normal_capacity st' this = normal_capacity st other" "CStr st' this = CStr st other"
    using e ne' by simp_all
  show "strs st' z = strs st z" if "z \<noteq> this" "z \<noteq> other" for z
    using e(8) [OF that] that by simp
  show "heap st' = heap st" "brk st' = brk st" "junk st' = junk st"
    using e by simp_all
qed

lemma moved_from_observe:
  assumes "moved_from st x"
  shows "CStr st x = HeapPtr 0" and "content st x = None"
    and "byte_at st (CStr st x) i = None" and "String_dtor x st = Some st"
  using assms
  by (simp_all add: moved_from_def CStr_def content_null byte_at_def String_dtor_null)

subsection \<open>Example states\<close>

lemma example_large_small:
  obtains st1 st2 where "String_cstr 0 (Some (replicate 70 77 @ [0])) st_init = Some st1"
    and "String_cstr 1 (Some ([83, 109, 97, 108, 108] @ [0])) st1 = Some st2"
    and "valid st2 0" and "\<not> IsSmall st2 0" and "content st2 0 = Some (replicate 70 77)"
    and "valid st2 1" and "IsSmall st2 1" and "content st2 1 = Some [83, 109, 97, 108, 108]"
    and "can_alloc st2" and "normal_data st2 0 = 1"
proof -
  have a: "0 \<notin> set (replicate 70 (77 :: byte))" "length (replicate 70 (77 :: byte)) < 2 ^ 55"
    by simp_all
  from String_cstr_effect [OF a can_alloc_init, of 0 "[]"]
  obtain st1 where r1: "String_cstr 0 (Some (replicate 70 77 @ [0])) st_init = Some st1"
    and v1: "valid st1 0" and c1: "content st1 0 = Some (replicate 70 77)"
    and s1: "\<not> IsSmall st1 0" and h1: "heap st1 = (heap st_init)(brk st_init \<mapsto> replicate 70 77 @ [0])"
    and b1: "brk st1 = brk st_init + 1" and d1: "normal_data st1 0 = brk st_init"
    by (simp only: length_replicate) (simp, blast)
  have b: "0 \<notin> set [83, 109, 97, 108, 108 :: byte]" "length [83, 109, 97, 108, 108 :: byte] < 2 ^ 55"
    and b': "47 \<le> length [83, 109, 97, 108, 108 :: byte] \<Longrightarrow> can_alloc st1"
    by simp_all
  from String_cstr_effect [OF b b', of 1 "[]"]
  obtain st2 where r2: "String_cstr 1 (Some ([83, 109, 97, 108, 108] @ [0])) st1 = Some st2"
    and v2: "valid st2 1" and c2: "content st2 1 = Some [83, 109, 97, 108, 108]"
    and s2: "IsSmall st2 1" and o2: "\<And>y. y \<noteq> 1 \<Longrightarrow> strs st2 y = strs st1 y"
    and h2: "heap st2 = heap st1" and b2: "brk st2 = brk st1"
    by simp blast
  have u: "strs st2 0 = strs st1 0"
    by (simp add: o2)
  have "valid st2 0" "content st2 0 = content st1 0"
    by (rule valid_same_bytes [OF v1 u], simp add: h2)+
  moreover have "\<not> IsSmall st2 0" "normal_data st2 0 = 1"
    using s1 d1 observers_cong(1) [OF u] getters_cong(1) [OF u] by (simp_all add: st_init_def)
  moreover have "can_alloc st2"
    by (simp add: can_alloc_def h2 b2 h1 b1 st_init_def)
  ultimately show ?thesis
    using r1 r2 v2 c2 s2 c1 by (intro that) simp_all
qed

text \<open>
  C8. Move construction from a source in heap mode hands the data pointer, the capacity
  and the length to the destination unchanged, so the destination shows the same
  character pointer, size and text. The source is left with length 0, capacity 0 and a
  null pointer, and destroying it then changes nothing: no block is released.
\<close>

theorem String_move_steals_block:
  assumes "this \<noteq> other" and "valid st other" and "\<not> IsSmall st other"
  defines "st' \<equiv> String_move this other st"
  shows "CStr st' this = CStr st other \<and> normal_data st' this = normal_data st other
       \<and> normal_capacity st' this = normal_capacity st other
       \<and> GetSize st' this = GetSize st other \<and> content st' this = content st other
       \<and> heap st' = heap st
       \<and> \<not> IsSmall st' other \<and> GetSize st' other = 0 \<and> normal_capacity st' other = 0
       \<and> normal_data st' other = 0 \<and> String_dtor other st' = Some st'"
proof -
  have st': "st' = move_heap this other (memset_buffer this st)"
    unfolding st'_def using assms(1,3) by (rule String_move_heap_eq)
  note e = move_heap_after_memset [OF assms(1) valid_length [OF assms(2)] assms(3), folded st']
  from assms(2,3) have p: "normal_data st other \<noteq> 0"
    by (simp add: valid_def)
  have "heap st' (normal_data st other) = heap st (normal_data st other)"
    by (simp add: e)
  note v = valid_same_fields [OF assms(2,3) e(1,2,4,5,3) this]
  from e(7) have "\<not> IsSmall st' other" "GetSize st' other = 0" "normal_capacity st' other = 0"
      "normal_data st' other = 0"
    by (simp_all add: moved_from_def)
  with e v moved_from_observe [OF e(7)] show ?thesis
    by simp
qed

theorem String_move_steals_block_witness:
  "\<exists>st1 st. String_cstr 0 (Some (replicate 70 77 @ [0])) st_init = Some st1
     \<and> String_cstr 1 (Some ([83, 109, 97, 108, 108] @ [0])) st1 = Some st
     \<and> CStr (String_move 2 0 st) 2 = CStr st 0
     \<and> normal_data (String_move 2 0 st) 2 = normal_data st 0
     \<and> normal_capacity (String_move 2 0 st) 2 = normal_capacity st 0
     \<and> GetSize (String_move 2 0 st) 2 = GetSize st 0
     \<and> content (String_move 2 0 st) 2 = content st 0
     \<and> heap (String_move 2 0 st) = heap st
     \<and> \<not> IsSmall (String_move 2 0 st) 0 \<and> GetSize (String_move 2 0 st) 0 = 0
     \<and> normal_capacity (String_move 2 0 st) 0 = 0
     \<and> normal_data (String_move 2 0 st) 0 = 0
     \<and> String_dtor 0 (String_move 2 0 st) = Some (String_move 2 0 st)"
proof -
  from example_large_small obtain st1 st
    where r: "String_cstr 0 (Some (replicate 70 77 @ [0])) st_init = Some st1"
      "String_cstr 1 (Some ([83, 109, 97, 108, 108] @ [0])) st1 = Some st"
      and v: "valid st 0" and l: "\<not> IsSmall st 0"
    by blast
  have ne: "(2::nat) \<noteq> 0" by simp
  from r String_move_steals_block [OF ne v l] show ?thesis
    by blast
qed

text \<open>
  C10. After move construction or move assignment from a source in heap mode, the source
  returns a null pointer from \<open>CStr()\<close> and 0 from \<open>GetSize()\<close>: there is no text to read
  through that pointer, not even an empty one. Destroying the source still succeeds and
  changes nothing.
\<close>

theorem moved_from_CStr_is_null:
  assumes "this \<noteq> other" and "valid st other" and "\<not> IsSmall st other"
  shows "(CStr (String_move this other st) other = HeapPtr 0
          \<and> GetSize (String_move this other st) other = 0
          \<and> content (String_move this other st) other = None
          \<and> String_dtor other (String_move this other st) = Some (String_move this other st))
       \<and> (valid st this \<or> moved_from st this \<longrightarrow>
            (\<exists>st'. assign_move this other st = Some st'
               \<and> CStr st' other = HeapPtr 0 \<and> GetSize st' other = 0
               \<and> content st' other = None \<and> String_dtor other st' = Some st'))"
proof (intro conjI impI)
  have eq: "String_move this other st = move_heap this other (memset_buffer this st)"
    using assms(1,3) by (rule String_move_heap_eq)
  note lo = valid_length [OF assms(2)]
  from move_heap_after_memset(7) [OF assms(1) lo assms(3)]
  have m: "moved_from (String_move this other st) other"
    by (simp add: eq)
  from m show "CStr (String_move this other st) other = HeapPtr 0"
    "content (String_move this other st) other = None"
    "String_dtor other (String_move this other st) = Some (String_move this other st)"
    by (rule moved_from_observe)+
  from m show "GetSize (String_move this other st) other = 0"
    by (simp add: moved_from_def)
next
  assume live: "valid st this \<or> moved_from st this"
  note ne' = assms(1) [symmetric]
  from String_dtor_effect [OF live] obtain st1 where d: "String_dtor this st = Some st1"
    and o: "\<And>z. z \<noteq> this \<Longrightarrow> strs st1 z = strs st z"
    by blast
  have u: "strs st1 other = strs st other"
    using ne' by (rule o)
  have lo: "length (strs st1 other) = 48"
    using valid_length [OF assms(2)] by (simp add: u)
  have large: "\<not> IsSmall st1 other"
    using assms(3) observers_cong(1) [OF u] by simp
  let ?st' = "move_heap this other (memset_buffer this st1)"
  have run: "assign_move this other st = Some ?st'"
    using assms(1) large ne' by (simp add: assign_move_def d)
  from move_heap_after_memset(7) [OF assms(1) lo large]
  have m: "moved_from ?st' other" .
  from m have "GetSize ?st' other = 0"
    by (simp add: moved_from_def)
  with run moved_from_observe [OF m]
  show "\<exists>st'. assign_move this other st = Some st'
               \<and> CStr st' other = HeapPtr 0 \<and> GetSize st' other = 0
               \<and> content st' other = None \<and> String_dtor other st' = Some st'"
    by simp
qed

theorem moved_from_CStr_is_null_witness:
  "\<exists>st1 st. String_cstr 0 (Some (replicate 70 77 @ [0])) st_init = Some st1
     \<and> String_cstr 1 (Some ([83, 109, 97, 108, 108] @ [0])) st1 = Some st
     \<and> (valid st 1 \<or> moved_from st 1)
     \<and> (CStr (String_move 2 0 st) 0 = HeapPtr 0
          \<and> GetSize (String_move 2 0 st) 0 = 0
          \<and> content (String_move 2 0 st) 0 = None
          \<and> String_dtor 0 (String_move 2 0 st) = Some (String_move 2 0 st))
     \<and> (\<exists>st'. assign_move 1 0 st = Some st'
               \<and> CStr st' 0 = HeapPtr 0 \<and> GetSize st' 0 = 0
               \<and> content st' 0 = None \<and> String_dtor 0 st' = Some st')"
proof -
  from example_large_small obtain st1 st
    where r: "String_cstr 0 (Some (replicate 70 77 @ [0])) st_init = Some st1"
      "String_cstr 1 (Some ([83, 109, 97, 108, 108] @ [0])) st1 = Some st"
      and v: "valid st 0" and l: "\<not> IsSmall st 0" and v1: "valid st 1"
    by blast
  have ne: "(2::nat) \<noteq> 0" "(1::nat) \<noteq> 0" by simp_all
  from r v1 moved_from_CStr_is_null [OF ne(1) v l] moved_from_CStr_is_null [OF ne(2) v l]
  show ?thesis
    by blast
qed

subsection \<open>Copying\<close>

declare load.simps [simp del] store.simps [simp del]

lemma valid_largeI:
  assumes "length (strs st x) = 48" and "\<not> IsSmall st x" and "normal_data st x = p" and "p \<noteq> 0"
    and "heap st p = Some blk" and "length blk = unat (normal_capacity st x)"
    and "c_text blk = Some a" and "length a = unat (GetSize st x)"
  shows "valid st x" and "content st x = Some a"
proof -
  show c: "content st x = Some a"
    using assms by (simp add: content_large)
  show "valid st x"
    using assms by (simp add: valid_def c)
qed

lemma c_text_take_Suc:
  assumes "c_text blk = Some a"
  shows "take (Suc (length a)) blk = a @ [0]"
proof -
  from c_text_SomeD [OF assms]
  have "length a < length blk" "blk ! length a = 0" "take (length a) blk = a"
    by simp_all
  then show ?thesis
    by (simp add: take_Suc_conv_app_nth)
qed

lemma c_text_put_at_0:
  assumes "c_text blk = Some a" and "Suc (length a) \<le> length other"
  shows "c_text (put_at 0 (a @ [0]) other) = Some a"
proof -
  from c_text_SomeD [OF assms(1)] have "0 \<notin> set a" by simp
  then show ?thesis
    by (simp add: put_at_def c_text_terminated)
qed

lemma unat_Suc_size:
  fixes n :: size_t
  shows "unat n < 2 ^ 63 \<Longrightarrow> unat (n + 1) = Suc (unat n)"
  by (simp add: unat_word_ariths)

lemma copy_heap_effect:
  assumes ne: "this \<noteq> other" and v: "valid st other" and large: "\<not> IsSmall st other"
    and lt: "length (strs st this) = 48" and alloc: "can_alloc st"
  obtains st' where "copy_heap this other st = Some st'"
    and "valid st' this" and "content st' this = content st other"
    and "\<not> IsSmall st' this" and "normal_data st' this = brk st"
    and "normal_capacity st' this = normal_capacity st other"
    and "GetSize st' this = GetSize st other"
    and "\<And>z. z \<noteq> this \<Longrightarrow> strs st' z = strs st z"
    and "\<And>q. q \<noteq> brk st \<Longrightarrow> heap st' q = heap st q"
    and "\<exists>blk. heap st' (brk st) = Some blk \<and> length blk = unat (normal_capacity st other)"
    and "brk st' = brk st + 1" and "junk st' = junk st"
proof -
  note ne' = ne [symmetric]
  let ?n = "GetSize st other" and ?c = "normal_capacity st other" and ?p = "normal_data st other"
  from valid_largeD [OF v large] obtain blk a where p0: "?p \<noteq> 0" and hp: "heap st ?p = Some blk"
    and lb: "length blk = unat ?c" and ct: "c_text blk = Some a"
    and ca: "content st other = Some a" and la: "length a = unat ?n"
    by blast
  note bits = large_size_bits [OF valid_length [OF v] large]
  have un: "unat (?n + 1) = Suc (length a)"
    using bits(2) by (simp add: unat_Suc_size la)
  have fit: "Suc (length a) \<le> length blk"
    using c_text_SomeD [OF ct] by simp
  have b0: "brk st \<noteq> 0" and hb: "heap st (brk st) = None"
    using alloc by (simp_all add: can_alloc_def)
  have pb: "?p \<noteq> brk st"
    using hp hb by auto
  define st2 where "st2 = set_normal_capacity this ?c (set_normal_sizeFlag this (LSBFlag_Set ?n False) st)"
  define junkblk where "junkblk = map (junk st (brk st)) [0..<unat ?c]"
  define st3 where "st3 = st2\<lparr>heap := (heap st2)(brk st2 \<mapsto> map (junk st2 (brk st2)) [0..<unat ?c]),
      brk := brk st2 + 1\<rparr>"
  define st4 where "st4 = set_normal_data this (brk st) st3"
  define st5 where "st5 = st4\<lparr>heap := (heap st4)(brk st \<mapsto> put_at 0 (a @ [0]) junkblk)\<rparr>"
  have cap2: "normal_capacity st2 this = ?c"
    using lt by (simp add: st2_def)
  have sel2: "brk st2 = brk st" "junk st2 = junk st" "heap st2 = heap st"
    by (simp_all add: st2_def)
  have alloc2: "can_alloc st2"
    using alloc by (simp add: st2_def)
  have new: "new_char ?c st2 = Some (brk st2, st3)"
    unfolding st3_def using alloc2 by (rule new_char_ok)
  have st4_this: "st4 = set_normal_data this (brk st) (set_normal_capacity this ?c
      (set_normal_sizeFlag this (LSBFlag_Set ?n False)
        (st\<lparr>heap := (heap st)(brk st \<mapsto> junkblk), brk := brk st + 1\<rparr>)))"
    by (simp add: st4_def st3_def st2_def sel2 junkblk_def setter_defs upd_def)
  have d4: "normal_data st4 this = brk st"
    by (simp add: st4_def)
  have o4: "normal_data st4 other = ?p"
    using ne' by (simp add: st4_def st3_def st2_def)
  have o3: "normal_data st3 other = ?p"
    using ne' by (simp add: st3_def st2_def)
  have h4: "heap st4 = (heap st)(brk st \<mapsto> junkblk)"
    by (simp add: st4_def st3_def sel2 junkblk_def)
  have ljunk: "length junkblk = unat ?c"
    by (simp add: junkblk_def)
  have ld: "load st4 (HeapPtr ?p) (Suc (length a)) = Some (a @ [0])"
    using p0 pb fit by (simp add: load.simps h4 hp c_text_take_Suc [OF ct])
  have st: "store (HeapPtr (brk st)) 0 (a @ [0]) st4 = Some st5"
    using b0 fit lb by (simp add: store.simps h4 ljunk st5_def)
  have cpy: "memcpy (HeapPtr (brk st)) 0 (HeapPtr ?p) (?n + 1) st4 = Some st5"
    by (simp add: memcpy_def un ld st)
  have run: "copy_heap this other st = Some st5"
    using ne'
    by (simp add: copy_heap_def Let_def st2_def [symmetric] cap2 new sel2 st4_def [symmetric] d4 o4 o3 cpy)
  have l0: "length (strs (st\<lparr>heap := (heap st)(brk st \<mapsto> junkblk), brk := brk st + 1\<rparr>) this) = 48"
    using lt by simp
  note w = large_fields_after_write [OF l0 bits(2) bits(1),
      where p = "brk st" and c = ?c, folded st4_this]
  have u5: "strs st5 = strs st4"
    by (simp add: st5_def)
  have f5: "length (strs st5 this) = 48" "\<not> IsSmall st5 this" "GetSize st5 this = ?n"
    "normal_data st5 this = brk st" "normal_capacity st5 this = ?c"
    using w by (simp_all add: st5_def)
  have h5: "heap st5 (brk st) = Some (put_at 0 (a @ [0]) junkblk)"
    by (simp add: st5_def)
  have l5: "length (put_at 0 (a @ [0]) junkblk) = unat (normal_capacity st5 this)"
    using fit lb by (simp add: f5 length_put_at ljunk)
  have c5: "c_text (put_at 0 (a @ [0]) junkblk) = Some a"
    using ct fit lb by (intro c_text_put_at_0) (simp_all add: ljunk)
  have la5: "length a = unat (GetSize st5 this)"
    by (simp add: f5 la)
  note vl = valid_largeI [OF f5(1,2,4) b0 h5 l5 c5 la5]
  have other: "strs st5 z = strs st z" if "z \<noteq> this" for z
    using that by (simp add: st5_def st4_def st3_def st2_def)
  have frame: "heap st5 q = heap st q" if "q \<noteq> brk st" for q
    using that by (simp add: st5_def h4)
  have blk5: "\<exists>blk. heap st5 (brk st) = Some blk \<and> length blk = unat ?c"
    using h5 l5 f5 by simp
  have sel5: "brk st5 = brk st + 1" "junk st5 = junk st"
    by (simp_all add: st5_def st4_def st3_def sel2)
  show ?thesis
    using vl f5 other frame blk5 sel5 ca by (intro that [OF run]) simp_all
qed

lemma String_copy_effect:
  assumes ne: "this \<noteq> other" and v: "valid st other"
    and alloc: "\<not> IsSmall st other \<Longrightarrow> can_alloc st"
  obtains st' where "String_copy this other st = Some st'"
    and "valid st' this" and "content st' this = content st other"
    and "IsSmall st' this = IsSmall st other" and "GetSize st' this = GetSize st other"
    and "\<And>z. z \<noteq> this \<Longrightarrow> strs st' z = strs st z"
    and "\<And>q. q \<noteq> brk st \<Longrightarrow> heap st' q = heap st q"
    and "IsSmall st other \<Longrightarrow> heap st' = heap st \<and> brk st' = brk st"
    and "\<not> IsSmall st other \<Longrightarrow> normal_data st' this = brk st \<and>
           normal_capacity st' this = normal_capacity st other \<and> brk st' = brk st + 1 \<and>
           (\<exists>blk. heap st' (brk st) = Some blk \<and> length blk = unat (normal_capacity st other))"
    and "junk st' = junk st"
proof -
  note ne' = ne [symmetric]
  let ?m = "memset_buffer this st"
  have um: "strs ?m other = strs st other"
    using ne' by simp
  have vm: "valid ?m other" and cm: "content ?m other = content st other"
    by (rule valid_same_bytes [OF v um], simp)+
  have om: "IsSmall ?m other = IsSmall st other" "GetSize ?m other = GetSize st other"
    "normal_capacity ?m other = normal_capacity st other"
    using ne' by simp_all
  show ?thesis
  proof (cases "IsSmall st other")
    case True
    let ?st' = "memcpy_buffer this other ?m"
    have run: "String_copy this other st = Some ?st'"
      using True om by (simp add: String_copy_def Let_def)
    have u: "strs ?st' this = strs ?m other"
      by (simp add: memcpy_buffer_def)
    have "valid ?st' this" and c: "content ?st' this = content ?m other"
      by (rule valid_same_bytes [OF vm u], simp)+
    moreover have "IsSmall ?st' this = IsSmall st other" "GetSize ?st' this = GetSize st other"
      using same_bytes(1,2) [OF u] om by simp_all
    ultimately show ?thesis
      using True cm by (intro that [OF run]) simp_all
  next
    case False
    then have lm: "\<not> IsSmall ?m other"
      using om by simp
    have am: "can_alloc ?m"
      using alloc [OF False] by simp
    have lt: "length (strs ?m this) = 48"
      by simp
    from copy_heap_effect [OF ne vm lm lt am]
    obtain st' where run: "copy_heap this other ?m = Some st'"
      and r: "valid st' this" "content st' this = content ?m other"
        "\<not> IsSmall st' this" "normal_data st' this = brk ?m"
        "normal_capacity st' this = normal_capacity ?m other"
        "GetSize st' this = GetSize ?m other"
        "\<And>z. z \<noteq> this \<Longrightarrow> strs st' z = strs ?m z"
        "\<And>q. q \<noteq> brk ?m \<Longrightarrow> heap st' q = heap ?m q"
        "\<exists>blk. heap st' (brk ?m) = Some blk \<and> length blk = unat (normal_capacity ?m other)"
        "brk st' = brk ?m + 1" "junk st' = junk ?m"
      by blast
    have run': "String_copy this other st = Some st'"
      using lm run by (simp add: String_copy_def Let_def)
    show ?thesis
      using False r cm om by (intro that [OF run']) simp_all
  qed
qed

text \<open>
  C7, amended. Copy construction from a well-formed source, that is a source that is not
  moved-from, is a deep copy: the copy shows the same text as the source, the source is
  left as it was, and the two character pointers differ. For a source in heap mode the
  copy owns a new block of the size of the source's capacity, which it records as its own
  capacity.
\<close>

theorem String_copy_is_deep:
  assumes "this \<noteq> other" and "valid st other" and "\<not> IsSmall st other \<longrightarrow> can_alloc st"
  shows "\<exists>st'. String_copy this other st = Some st'
      \<and> content st' this = content st other
      \<and> content st' other = content st other \<and> CStr st' other = CStr st other
      \<and> CStr st' this \<noteq> CStr st' other
      \<and> (\<not> IsSmall st other \<longrightarrow>
            \<not> IsSmall st' this \<and> heap st (normal_data st' this) = None
            \<and> normal_capacity st' this = normal_capacity st other
            \<and> (\<exists>blk. heap st' (normal_data st' this) = Some blk
                   \<and> length blk = unat (normal_capacity st other)))"
proof -
  from assms(3) have alloc: "\<not> IsSmall st other \<Longrightarrow> can_alloc st" by simp
  from String_copy_effect [OF assms(1,2) alloc]
  obtain st' where run: "String_copy this other st = Some st'"
    and "valid st' this"
    and c: "content st' this = content st other"
    and s: "IsSmall st' this = IsSmall st other"
    and "GetSize st' this = GetSize st other"
    and o: "\<And>z. z \<noteq> this \<Longrightarrow> strs st' z = strs st z"
    and h: "\<And>q. q \<noteq> brk st \<Longrightarrow> heap st' q = heap st q"
    and "IsSmall st other \<Longrightarrow> heap st' = heap st \<and> brk st' = brk st"
    and l: "\<not> IsSmall st other \<Longrightarrow> normal_data st' this = brk st \<and>
           normal_capacity st' this = normal_capacity st other \<and> brk st' = brk st + 1 \<and>
           (\<exists>blk. heap st' (brk st) = Some blk \<and> length blk = unat (normal_capacity st other))"
    and "junk st' = junk st"
    by blast
  have u: "strs st' other = strs st other"
    using assms(1) by (simp add: o)
  have hb: "heap st (brk st) = None" if "\<not> IsSmall st other"
    using alloc [OF that] by (simp add: can_alloc_def)
  have hp: "heap st' (normal_data st other) = heap st (normal_data st other)"
    and pb: "normal_data st other \<noteq> brk st" if "\<not> IsSmall st other"
  proof -
    from valid_largeD [OF assms(2) that] obtain blk
      where "heap st (normal_data st other) = Some blk"
      by blast
    with hb [OF that] show "normal_data st other \<noteq> brk st"
      by auto
    then show "heap st' (normal_data st other) = heap st (normal_data st other)"
      by (rule h)
  qed
  have co: "content st' other = content st other"
    by (rule valid_same_bytes(2) [OF assms(2) u hp])
  have po: "CStr st' other = CStr st other"
    by (rule observers_cong(3) [OF u])
  have ne: "CStr st' this \<noteq> CStr st' other"
  proof (cases "IsSmall st other")
    case True
    with s assms(1) same_bytes(1,3) [OF u] show ?thesis
      by (simp add: CStr_def)
  next
    case False
    with s l pb same_bytes(1,3) [OF u] show ?thesis
      by (auto simp add: CStr_def)
  qed
  have large: "\<not> IsSmall st' this \<and> heap st (normal_data st' this) = None
            \<and> normal_capacity st' this = normal_capacity st other
            \<and> (\<exists>blk. heap st' (normal_data st' this) = Some blk
                   \<and> length blk = unat (normal_capacity st other))"
    if "\<not> IsSmall st other"
    using that s l [OF that] hb [OF that] by simp
  from run c co po ne large show ?thesis
    by blast
qed

theorem String_copy_is_deep_witness:
  "\<exists>st1 st. String_cstr 0 (Some (replicate 70 77 @ [0])) st_init = Some st1
     \<and> String_cstr 1 (Some ([83, 109, 97, 108, 108] @ [0])) st1 = Some st
     \<and> \<not> IsSmall st 0
     \<and> (\<exists>st'. String_copy 2 0 st = Some st'
      \<and> content st' 2 = content st 0
      \<and> content st' 0 = content st 0 \<and> CStr st' 0 = CStr st 0
      \<and> CStr st' 2 \<noteq> CStr st' 0
      \<and> \<not> IsSmall st' 2 \<and> heap st (normal_data st' 2) = None
      \<and> normal_capacity st' 2 = normal_capacity st 0
      \<and> (\<exists>blk. heap st' (normal_data st' 2) = Some blk
                   \<and> length blk = unat (normal_capacity st 0)))"
proof -
  from example_large_small obtain st1 st
    where r: "String_cstr 0 (Some (replicate 70 77 @ [0])) st_init = Some st1"
      "String_cstr 1 (Some ([83, 109, 97, 108, 108] @ [0])) st1 = Some st"
      and v: "valid st 0" and l: "\<not> IsSmall st 0" and a: "can_alloc st"
    by blast
  have ne: "(2::nat) \<noteq> 0" by simp
  from a have a': "\<not> IsSmall st 0 \<longrightarrow> can_alloc st" by simp
  from String_copy_is_deep [OF ne v a'] obtain st'
    where "String_copy 2 0 st = Some st'" and "content st' 2 = content st 0"
      and "content st' 0 = content st 0" and "CStr st' 0 = CStr st 0"
      and "CStr st' 2 \<noteq> CStr st' 0"
      and "\<not> IsSmall st 0 \<longrightarrow>
            \<not> IsSmall st' 2 \<and> heap st (normal_data st' 2) = None
            \<and> normal_capacity st' 2 = normal_capacity st 0
            \<and> (\<exists>blk. heap st' (normal_data st' 2) = Some blk
                   \<and> length blk = unat (normal_capacity st 0))"
    by blast
  with l r show ?thesis
    by (intro exI [of _ st1] exI [of _ st] exI [of _ st'] conjI) simp_all
qed

subsection \<open>Memory primitives\<close>

lemma put_at_Nil [simp]: "put_at off [] u = u"
  by (simp add: put_at_def)

lemma store_heap_eq:
  assumes "a \<noteq> 0" and "heap st a = Some blk" and "off + length bs \<le> length blk"
  shows "store (HeapPtr a) off bs st = Some (st\<lparr>heap := (heap st)(a \<mapsto> put_at off bs blk)\<rparr>)"
proof (cases "bs = []")
  case True
  have "(heap st)(a \<mapsto> blk) = heap st"
    using assms(2) by (simp add: fun_upd_idem)
  then show ?thesis
    using True by (simp add: store.simps)
next
  case False
  then show ?thesis
    using assms by (simp add: store.simps)
qed

lemma store_sbo_eq:
  "off + length bs \<le> 47 \<Longrightarrow> store (SboPtr x) off bs st = Some (upd x (put_at off bs) st)"
  by (simp add: store.simps)

lemma delete_arr_eq:
  "p \<noteq> 0 \<Longrightarrow> heap st p \<noteq> None \<Longrightarrow> delete_arr p st = Some (st\<lparr>heap := (heap st)(p := None)\<rparr>)"
  "delete_arr 0 st = Some st"
  by (simp_all add: delete_arr_def)

lemma put_at_0_junk:
  "length a \<le> n \<Longrightarrow> put_at 0 a (map f [0..<n]) = a @ map f [length a..<n]"
  by (simp add: put_at_def drop_map)

lemma load_frame:
  assumes "load st p n = Some a"
    and "strs st' = strs st"
    and "\<And>q. heap st q \<noteq> None \<Longrightarrow> heap st' q = heap st q"
  shows "load st' p n = Some a"
proof (cases p)
  case (SboPtr x)
  with assms(1,2) show ?thesis by (auto simp add: load.simps split: if_splits)
next
  case (HeapPtr q)
  show ?thesis
  proof (cases "n = 0")
    case True
    with assms(1) HeapPtr show ?thesis by (simp add: load.simps)
  next
    case False
    with assms(1) HeapPtr have q: "q \<noteq> 0" "heap st q \<noteq> None"
      by (auto simp add: load.simps split: if_splits option.splits)
    from assms(3) [OF q(2)] assms(1) HeapPtr False q show ?thesis
      by (simp add: load.simps)
  qed
qed

lemma load_length:
  assumes "load st p n = Some a" and "\<And>y. p = SboPtr y \<Longrightarrow> 47 \<le> length (strs st y)"
  shows "length a = n"
proof (cases p)
  case (SboPtr y)
  with assms(1) have "n \<le> 47" and "a = take n (strs st y)"
    by (auto simp add: load.simps split: if_splits)
  with assms(2) [OF SboPtr] show ?thesis by simp
next
  case (HeapPtr q)
  with assms(1) show ?thesis
    by (auto simp add: load.simps split: if_splits option.splits)
qed

subsection \<open>Reallocation\<close>

lemma ReallocateAndCopy_core:
  assumes l: "length (strs st x) = 48"
    and ld: "load st (CStr st x) (unat cur) = Some a"
    and del: "\<not> IsSmall st x \<Longrightarrow> normal_data st x = 0 \<or> heap st (normal_data st x) \<noteq> None"
    and n63: "unat cur < 2 ^ 63" and b55: "\<not> bit cur 55"
    and alloc: "can_alloc st" and fit: "length a \<le> unat newCap"
  obtains st' where "ReallocateAndCopy x newCap cur st = Some st'"
    and "length (strs st' x) = 48" and "\<not> IsSmall st' x" and "GetSize st' x = cur"
    and "normal_data st' x = brk st" and "normal_capacity st' x = newCap"
    and "heap st' (brk st) = Some (a @ map (junk st (brk st)) [length a..<unat newCap])"
    and "\<And>q. q \<noteq> brk st \<Longrightarrow>
          heap st' q = (if \<not> IsSmall st x \<and> q = normal_data st x \<and> q \<noteq> 0 then None else heap st q)"
    and "\<And>z. z \<noteq> x \<Longrightarrow> strs st' z = strs st z"
    and "brk st' = brk st + 1" and "junk st' = junk st"
proof -
  let ?p = "normal_data st x" and ?b = "brk st"
  have b0: "?b \<noteq> 0" and hb: "heap st ?b = None"
    using alloc by (simp_all add: can_alloc_def)
  define junkblk where "junkblk = map (junk st ?b) [0..<unat newCap]"
  define st1 where "st1 = st\<lparr>heap := (heap st)(?b \<mapsto> junkblk), brk := ?b + 1\<rparr>"
  define st2 where "st2 = st1\<lparr>heap := (heap st1)(?b \<mapsto> put_at 0 a junkblk)\<rparr>"
  define st3 where "st3 = (if \<not> IsSmall st x \<and> ?p \<noteq> 0 then st2\<lparr>heap := (heap st2)(?p := None)\<rparr> else st2)"
  define st4 where "st4 = set_normal_data x ?b (set_normal_capacity x newCap
      (set_normal_sizeFlag x (LSBFlag_Set cur False) st3))"
  have new: "new_char newCap st = Some (?b, st1)"
    unfolding st1_def junkblk_def using alloc by (rule new_char_ok)
  have s1: "strs st1 = strs st" "heap st1 = (heap st)(?b \<mapsto> junkblk)"
    by (simp_all add: st1_def)
  have o1: "IsSmall st1 x = IsSmall st x" "normal_data st1 x = ?p"
    by (simp_all add: st1_def)
  have la: "length a = unat cur"
    using ld by (rule load_length) (auto simp add: CStr_def l split: if_splits)
  have ld1: "load st1 (CStr st x) (unat cur) = Some a"
    using ld s1(1)
  proof (rule load_frame)
    fix q assume "heap st q \<noteq> None"
    with hb have "q \<noteq> ?b" by auto
    then show "heap st1 q = heap st q" by (simp add: s1)
  qed
  have sto: "store (HeapPtr ?b) 0 a st1 = Some st2"
    unfolding st2_def using b0
    by (rule store_heap_eq) (simp_all add: s1 junkblk_def fit)
  have s2: "strs st2 = strs st" "heap st2 = (heap st)(?b \<mapsto> put_at 0 a junkblk)"
    by (simp_all add: st2_def st1_def)
  have o2: "normal_data st2 x = ?p"
    by (simp add: st2_def st1_def)
  have copy: "(if IsSmall st1 x then memcpy (HeapPtr ?b) 0 (SboPtr x) cur st1
      else memcpy (HeapPtr ?b) 0 (HeapPtr (normal_data st1 x)) cur st1 \<bind>
           (\<lambda>s. delete_arr (normal_data s x) s)) = Some st3"
  proof (cases "IsSmall st x")
    case True
    with ld1 have "load st1 (SboPtr x) (unat cur) = Some a"
      by (simp add: CStr_def)
    with True sto show ?thesis
      by (simp add: o1 memcpy_def st3_def)
  next
    case False
    with ld1 have "load st1 (HeapPtr ?p) (unat cur) = Some a"
      by (simp add: CStr_def)
    then have m: "memcpy (HeapPtr ?b) 0 (HeapPtr ?p) cur st1 = Some st2"
      using sto by (simp add: memcpy_def)
    show ?thesis
    proof (cases "?p = 0")
      case True
      with False m show ?thesis
        by (simp add: o1 o2 delete_arr_eq st3_def)
    next
      case p0: False
      with del [OF False] have hp: "heap st ?p \<noteq> None" by simp
      with hb have "?p \<noteq> ?b" by auto
      with hp have "heap st2 ?p \<noteq> None" by (simp add: s2)
      with p0 have "delete_arr ?p st2 = Some (st2\<lparr>heap := (heap st2)(?p := None)\<rparr>)"
        by (intro delete_arr_eq)
      with False p0 m show ?thesis
        by (simp add: o1 o2 st3_def)
    qed
  qed
  have run: "ReallocateAndCopy x newCap cur st = Some st4"
    using copy by (simp add: ReallocateAndCopy_def new Let_def st4_def)
  have s3: "strs st3 = strs st" "brk st3 = ?b + 1" "junk st3 = junk st"
    by (simp_all add: st3_def st2_def st1_def)
  have l3: "length (strs st3 x) = 48"
    using l by (simp add: s3)
  note w = large_fields_after_write [OF l3 n63 b55, where p = ?b and c = newCap, folded st4_def]
  have h4: "heap st4 = heap st3"
    by (simp add: st4_def)
  have pb: "?p \<noteq> ?b" if "\<not> IsSmall st x" "?p \<noteq> 0"
    using del [OF that(1)] that(2) hb by auto
  have "heap st3 ?b = heap st2 ?b"
  proof (cases "\<not> IsSmall st x \<and> ?p \<noteq> 0")
    case True
    with pb have "?p \<noteq> ?b" by simp
    with True show ?thesis by (simp add: st3_def)
  next
    case False
    then show ?thesis by (auto simp add: st3_def)
  qed
  then have blk: "heap st4 ?b = Some (a @ map (junk st ?b) [length a..<unat newCap])"
    using fit by (simp add: h4 s2 junkblk_def put_at_0_junk)
  have frame: "heap st4 q = (if \<not> IsSmall st x \<and> q = ?p \<and> q \<noteq> 0 then None else heap st q)"
    if "q \<noteq> ?b" for q
    using that by (auto simp add: h4 st3_def s2)
  have other: "strs st4 z = strs st z" if "z \<noteq> x" for z
    using that by (simp add: st4_def s3)
  have sel: "brk st4 = ?b + 1" "junk st4 = junk st"
    by (simp_all add: st4_def s3)
  show ?thesis
    using w blk frame other sel by (intro that [OF run]) simp_all
qed

subsection \<open>What a constructed object provides\<close>

lemma valid_smallD:
  assumes v: "valid st x" and s: "IsSmall st x" and c: "content st x = Some a"
  shows "length a \<le> 46" and "unat (GetSize st x) = length a"
    and "unat (GetValue (small_remainingSizeFlag st x)) = 47 - length a"
    and "take 47 (strs st x) = a @ 0 # drop (Suc (length a)) (take 47 (strs st x))"
    and "0 \<notin> set a"
proof -
  let ?r = "GetValue (small_remainingSizeFlag st x)"
  from v s have r: "1 \<le> ?r" "?r \<le> 47"
    by (simp_all add: valid_def)
  then have ur: "1 \<le> unat ?r" "unat ?r \<le> 47"
    by (simp_all add: word_le_nat_alt)
  have "unat (ucast ?r :: size_t) = unat ?r"
    by (rule unat_ucast_byte)
  moreover have "(ucast ?r :: size_t) \<le> 47"
    using ur by (simp add: word_le_nat_alt unat_ucast_byte)
  ultimately have sz: "unat (GetSize st x) = 47 - unat ?r"
    using s by (simp add: GetSize_def Let_def unat_sub)
  from v c have la: "length a = unat (GetSize st x)"
    by (simp add: valid_def)
  show "unat (GetSize st x) = length a"
    by (simp add: la)
  show "length a \<le> 46"
    using ur by (simp add: la sz)
  show "unat ?r = 47 - length a"
    using ur by (simp add: la sz)
  from c s have ct: "c_text (take 47 (strs st x)) = Some a"
    by (simp add: content_small)
  then show "take 47 (strs st x) = a @ 0 # drop (Suc (length a)) (take 47 (strs st x))"
    by (rule c_text_decompose)
  from c_text_SomeD [OF ct] show "0 \<notin> set a" by simp
qed

lemma holds_length: "holds st x a \<Longrightarrow> length (strs st x) = 48"
  by (auto simp add: holds_def valid_def moved_from_def)

lemma holds_size: "holds st x a \<Longrightarrow> unat (GetSize st x) = length a"
  by (auto simp add: holds_def valid_def moved_from_def)

lemma holds_no_NUL:
  assumes "holds st x a"
  shows "0 \<notin> set a"
proof (cases "valid st x \<and> content st x = Some a")
  case True
  then have "text_at st (CStr st x) = Some a"
    by (simp add: content_def)
  then obtain bs where "c_text bs = Some a"
    by (auto simp add: text_at_def Option.bind_eq_Some_conv)
  from c_text_SomeD [OF this] show ?thesis by simp
next
  case False
  with assms show ?thesis by (auto simp add: holds_def)
qed

lemma holds_size_bits:
  assumes "holds st x a"
  shows "unat (GetSize st x) < 2 ^ 63" and "\<not> bit (GetSize st x) 55"
proof -
  note l = holds_length [OF assms]
  have "unat (GetSize st x) < 2 ^ 63 \<and> \<not> bit (GetSize st x) 55"
  proof (cases "IsSmall st x")
    case True
    with assms have v: "valid st x" and c: "content st x = Some a"
      by (auto simp add: holds_def moved_from_def)
    from valid_smallD(1,2) [OF v True c] have "unat (GetSize st x) < 2 ^ 55"
      by simp
    then show ?thesis
      using bit55_small [of "GetSize st x"] by simp
  next
    case False
    from large_size_bits [OF l False] show ?thesis by simp
  qed
  then show "unat (GetSize st x) < 2 ^ 63" and "\<not> bit (GetSize st x) 55"
    by simp_all
qed

lemma holds_load:
  assumes "holds st x a"
  shows "load st (CStr st x) (unat (GetSize st x)) = Some a"
proof (cases "valid st x \<and> content st x = Some a")
  case True
  then have v: "valid st x" and c: "content st x = Some a" by simp_all
  show ?thesis
  proof (cases "IsSmall st x")
    case True
    note d = valid_smallD [OF v True c]
    have "take (length a) (strs st x) = take (length a) (take 47 (strs st x))"
      using d(1) by (simp add: min_def)
    also have "\<dots> = a"
      by (subst d(4)) simp
    finally show ?thesis
      using True d(1,2) by (simp add: CStr_def load.simps)
  next
    case False
    from valid_largeD [OF v False] c obtain blk where p: "normal_data st x \<noteq> 0"
      and h: "heap st (normal_data st x) = Some blk" and ct: "c_text blk = Some a"
      and la: "length a = unat (GetSize st x)"
      by auto
    from c_text_SomeD [OF ct] have "length a < length blk" "take (length a) blk = a"
      by simp_all
    with False p h la show ?thesis
      by (auto simp add: CStr_def load.simps)
  qed
next
  case False
  with assms have "moved_from st x" "a = []"
    by (auto simp add: holds_def)
  then show ?thesis
    by (simp add: moved_from_def CStr_def load.simps)
qed

lemma holds_deletable:
  assumes "holds st x a" and "\<not> IsSmall st x"
  shows "normal_data st x = 0 \<or> heap st (normal_data st x) \<noteq> None"
proof (cases "valid st x")
  case True
  from valid_largeD [OF True assms(2)] show ?thesis by auto
next
  case False
  with assms(1) show ?thesis by (simp add: holds_def moved_from_def)
qed

subsection \<open>Sizes of an append\<close>

lemma unat_double_plus_one:
  fixes w :: size_t
  shows "unat w < 2 ^ 55 \<Longrightarrow> unat (w * 2 + 1) = 2 * unat w + 1"
  by (simp add: unat_word_ariths)

lemma unat_plus_one:
  fixes w :: size_t
  shows "unat w < 2 ^ 55 \<Longrightarrow> unat (w + 1) = Suc (unat w)"
  by (simp add: unat_word_ariths)

lemma append_sizes:
  fixes cur :: size_t
  assumes "unat cur = A" and "A + B < 2 ^ 55"
  defines "n \<equiv> of_nat B :: size_t"
  shows "unat n = B" and "unat (cur + n) = A + B" and "unat (n + 1) = Suc B"
    and "unat ((cur + n) * 2 + 1) = 2 * (A + B) + 1"
    and "unat (cur + n + 1) = Suc (A + B)"
    and "unat (cur + n) < 2 ^ 63" and "\<not> bit (cur + n) 55"
proof -
  have B: "B < 2 ^ 55" and A: "A < 2 ^ 55"
    using assms(2) by simp_all
  show n: "unat n = B"
    using B by (simp add: n_def unat_of_nat)
  show t: "unat (cur + n) = A + B"
    using assms(2) by (simp add: unat_word_ariths n assms(1))
  show "unat (n + 1) = Suc B"
    using B by (simp add: unat_word_ariths n)
  have t55: "unat (cur + n) < 2 ^ 55"
    using assms(2) by (simp add: t)
  show "unat ((cur + n) * 2 + 1) = 2 * (A + B) + 1"
    using unat_double_plus_one [OF t55] by (simp only: t)
  show "unat (cur + n + 1) = Suc (A + B)"
    using unat_plus_one [OF t55] by (simp only: t)
  from t55 show "unat (cur + n) < 2 ^ 63"
    by (rule less_trans) simp
  from t55 show "\<not> bit (cur + n) 55"
    by (rule bit55_small)
qed

lemma set_size_large:
  fixes t :: size_t
  assumes l: "length (strs st x) = 48" and n: "unat t < 2 ^ 63" and b: "\<not> bit t 55"
  defines "st' \<equiv> set_normal_sizeFlag x (LSBFlag_Set t False) st"
  shows "length (strs st' x) = 48" and "\<not> IsSmall st' x" and "GetSize st' x = t"
    and "normal_data st' x = normal_data st x" and "normal_capacity st' x = normal_capacity st x"
    and "heap st' = heap st" and "brk st' = brk st" and "junk st' = junk st"
    and "\<And>z. z \<noteq> x \<Longrightarrow> strs st' z = strs st z"
proof -
  show "length (strs st' x) = 48"
    using l by (simp add: st'_def)
  have rsf: "small_remainingSizeFlag st' x = ucast (drop_bit 56 (LSBFlag_Set t False))"
    using l by (simp add: st'_def)
  show small: "\<not> IsSmall st' x"
    using b by (simp add: IsSmall_def rsf GetFlag_top_byte LSBFlag_Set_eq bit_LSBFlag)
  show "GetSize st' x = t"
    using l n by (simp add: GetSize_def small) (simp add: st'_def GetValue_size)
  show "normal_data st' x = normal_data st x" "normal_capacity st' x = normal_capacity st x"
    using l by (simp_all add: st'_def)
  show "heap st' = heap st" "brk st' = brk st" "junk st' = junk st"
    by (simp_all add: st'_def)
  show "strs st' z = strs st z" if "z \<noteq> x" for z
    using that by (simp add: st'_def)
qed

subsection \<open>Appending with reallocation\<close>

lemma drop_junk_tail:
  "drop k (map f [i..<j]) = map f [i + k..<j]"
  by (simp add: drop_map add.commute)

lemma grow_and_copy:
  assumes h: "holds st x a" and nz: "0 \<notin> set b" and bound: "length a + length b < 2 ^ 55"
    and alloc: "can_alloc st"
  defines "cur \<equiv> GetSize st x" and "n \<equiv> of_nat (length b) :: size_t"
  obtains st1 where
    "ReallocateAndCopy x ((cur + n) * 2 + 1) cur st \<bind>
       (\<lambda>s. memcpy_arr (HeapPtr (normal_data s x)) (unat cur) (b @ 0 # r) (n + 1) s) = Some st1"
    and "valid (update_size x (cur + n) st1) x"
    and "content (update_size x (cur + n) st1) x = Some (a @ b)"
    and "\<not> IsSmall (update_size x (cur + n) st1) x"
    and "GetSize (update_size x (cur + n) st1) x = cur + n"
    and "normal_data (update_size x (cur + n) st1) x = brk st"
    and "normal_capacity (update_size x (cur + n) st1) x = (cur + n) * 2 + 1"
    and "heap (update_size x (cur + n) st1) (brk st) =
           Some (a @ b @ 0 # map (junk st (brk st))
                              [Suc (length a + length b)..<2 * (length a + length b) + 1])"
    and "\<And>q. q \<noteq> brk st \<Longrightarrow> heap (update_size x (cur + n) st1) q =
           (if \<not> IsSmall st x \<and> q = normal_data st x \<and> q \<noteq> 0 then None else heap st q)"
    and "\<And>z. z \<noteq> x \<Longrightarrow> strs (update_size x (cur + n) st1) z = strs st z"
    and "brk (update_size x (cur + n) st1) = brk st + 1"
    and "junk (update_size x (cur + n) st1) = junk st"
proof -
  let ?A = "length a" and ?B = "length b"
  define total where "total = cur + n"
  define cap where "cap = total * 2 + 1"
  have ucur: "unat cur = ?A"
    unfolding cur_def using h by (rule holds_size)
  note sz = append_sizes [OF ucur bound, folded n_def, folded total_def, folded cap_def]
  note l = holds_length [OF h]
  have ld: "load st (CStr st x) (unat cur) = Some a"
    unfolding cur_def using h by (rule holds_load)
  have del: "\<not> IsSmall st x \<Longrightarrow> normal_data st x = 0 \<or> heap st (normal_data st x) \<noteq> None"
    using h by (rule holds_deletable)
  note bits = holds_size_bits [OF h, folded cur_def]
  have fit: "?A \<le> unat cap"
    by (simp add: sz)
  from ReallocateAndCopy_core [OF l ld del bits alloc fit]
  obtain s1 where run1: "ReallocateAndCopy x cap cur st = Some s1"
    and l1: "length (strs s1 x) = 48" and small1: "\<not> IsSmall s1 x" and size1: "GetSize s1 x = cur"
    and data1: "normal_data s1 x = brk st" and cap1: "normal_capacity s1 x = cap"
    and blk1: "heap s1 (brk st) = Some (a @ map (junk st (brk st)) [?A..<unat cap])"
    and frame1: "\<And>q. q \<noteq> brk st \<Longrightarrow>
          heap s1 q = (if \<not> IsSmall st x \<and> q = normal_data st x \<and> q \<noteq> 0 then None else heap st q)"
    and other1: "\<And>z. z \<noteq> x \<Longrightarrow> strs s1 z = strs st z"
    and brk1: "brk s1 = brk st + 1" and junk1: "junk s1 = junk st"
    by blast
  have b0: "brk st \<noteq> 0"
    using alloc by (simp add: can_alloc_def)
  let ?blk1 = "a @ map (junk st (brk st)) [?A..<unat cap]"
  define blk2 where "blk2 = put_at ?A (b @ [0]) ?blk1"
  define s2 where "s2 = s1\<lparr>heap := (heap s1)(brk st \<mapsto> blk2)\<rparr>"
  have room: "?A + length (b @ [0]) \<le> length ?blk1"
    by (simp add: sz)
  have sto: "store (HeapPtr (brk st)) ?A (b @ [0]) s1 = Some s2"
    unfolding s2_def blk2_def using b0 blk1 room by (rule store_heap_eq)
  have cpy: "memcpy_arr (HeapPtr (normal_data s1 x)) (unat cur) (b @ 0 # r) (n + 1) s1 = Some s2"
    using sto by (simp add: memcpy_arr_def data1 ucur sz)
  have run: "ReallocateAndCopy x cap cur st \<bind>
       (\<lambda>s. memcpy_arr (HeapPtr (normal_data s x)) (unat cur) (b @ 0 # r) (n + 1) s) = Some s2"
    by (simp add: run1 cpy)
  have u2: "strs s2 = strs s1"
    by (simp add: s2_def)
  have l2: "length (strs s2 x) = 48"
    by (simp add: u2 l1)
  have small2: "\<not> IsSmall s2 x"
    using small1 by (simp add: s2_def)
  define s3 where "s3 = update_size x total s2"
  have upd: "s3 = set_normal_sizeFlag x (LSBFlag_Set total False) s2"
    using small2 by (simp add: s3_def update_size_def)
  note w = set_size_large [OF l2 sz(6) sz(7), folded upd]
  have blk2: "blk2 = a @ b @ 0 # map (junk st (brk st)) [Suc (?A + ?B)..<2 * (?A + ?B) + 1]"
    by (simp add: blk2_def put_at_prefix drop_junk_tail sz)
  have h3: "heap s3 (brk st) = Some blk2"
    by (simp add: w s2_def)
  have d3: "normal_data s3 x = brk st"
    by (simp add: w) (simp add: s2_def data1)
  have c3: "normal_capacity s3 x = cap"
    by (simp add: w) (simp add: s2_def cap1)
  have tail: "length (map (junk st (brk st)) [Suc (?A + ?B)..<2 * (?A + ?B) + 1]) = ?A + ?B"
    by (simp only: length_map length_upt) arith
  have len3: "length blk2 = unat (normal_capacity s3 x)"
    by (simp only: c3 blk2 sz length_append list.size tail) simp
  have nza: "0 \<notin> set a"
    using h by (rule holds_no_NUL)
  have ct3: "c_text blk2 = Some (a @ b)"
    using nza nz c_text_terminated [of "a @ b"] by (simp only: blk2) simp
  have la3: "length (a @ b) = unat (GetSize s3 x)"
    by (simp add: w sz)
  note v = valid_largeI [OF w(1,2) d3 b0 h3 len3 ct3 la3]
  have frame: "heap s3 q =
           (if \<not> IsSmall st x \<and> q = normal_data st x \<and> q \<noteq> 0 then None else heap st q)"
    if "q \<noteq> brk st" for q
    using that frame1 [OF that] by (simp add: w s2_def)
  have other: "strs s3 z = strs st z" if "z \<noteq> x" for z
    using that by (simp add: w u2 other1)
  have sel: "brk s3 = brk st + 1" "junk s3 = junk st"
    by (simp_all add: w s2_def brk1 junk1)
  have h3': "heap s3 (brk st) =
           Some (a @ b @ 0 # map (junk st (brk st)) [Suc (?A + ?B)..<2 * (?A + ?B) + 1])"
    using h3 by (simp only: blk2)
  note facts = run v(1) v(2) w(2) w(3) d3 c3 h3' frame other sel(1) sel(2)
  show ?thesis
    by (rule that [OF facts [unfolded s3_def cap_def total_def]])
qed

subsection \<open>Appending in place\<close>

lemma put_at_last: "length w = k \<Longrightarrow> put_at k [c'] (w @ [c]) = w @ [c']"
  by (simp add: put_at_def)

lemma append_small_fits:
  assumes v: "valid st x" and s: "IsSmall st x" and c: "content st x = Some a"
    and nz: "0 \<notin> set b" and fits: "length a + length b < 47"
  obtains st' where "append_arr x (b @ 0 # r) (of_nat (length b)) st = Some st'"
    and "valid st' x" and "content st' x = Some (a @ b)" and "IsSmall st' x"
    and "heap st' = heap st" and "brk st' = brk st" and "junk st' = junk st"
    and "\<And>z. z \<noteq> x \<Longrightarrow> strs st' z = strs st z"
proof -
  let ?A = "length a" and ?B = "length b"
  define cur where "cur = GetSize st x"
  define n where "n = (of_nat ?B :: size_t)"
  define R where "R = (ucast (GetValue (small_remainingSizeFlag st x)) :: size_t)"
  define u where "u = strs st x"
  note d = valid_smallD [OF v s c]
  have l: "length u = 48"
    using v by (simp add: u_def valid_def)
  have ucur: "unat cur = ?A"
    by (simp add: cur_def d)
  have bound: "?A + ?B < 2 ^ 55"
    using fits by simp
  note sz = append_sizes [OF ucur bound, folded n_def]
  have uR: "unat R = 47 - ?A"
    by (simp add: R_def unat_ucast_byte d)
  have gt: "n < R"
    using fits by (simp add: word_less_nat_alt sz uR)
  have le: "n \<le> R"
    using gt by simp
  have uRn: "unat (R - n) = 47 - (?A + ?B)"
    using le by (simp add: unat_sub sz uR)
  have "unat (47 - of_nat (?A + ?B) :: size_t) = 47 - (?A + ?B)"
    using fits by (rule unat_47_minus)
  then have Rn: "R - n = 47 - of_nat (length (a @ b))"
    by (simp only: word_unat_eq_iff uRn length_append)
  define st1 where "st1 = upd x (put_at ?A (b @ [0])) st"
  define st2 where "st2 = set_small_remainingSizeFlag x (LSBFlag_Set (ucast (R - n)) True) st1"
  have cpy: "memcpy_arr (SboPtr x) (unat cur) (b @ 0 # r) (n + 1) st = Some st1"
    using fits by (simp add: memcpy_arr_def ucur sz store_sbo_eq st1_def)
  define rest0 where "rest0 = drop (Suc ?A) (take 47 u)"
  have lrest0: "length rest0 = 46 - ?A"
    using l by (simp add: rest0_def)
  have "u = take 47 u @ drop 47 u"
    by simp
  also have "drop 47 u = [u ! 47]"
    using l Cons_nth_drop_Suc [of 47 u] by simp
  also have "take 47 u = a @ 0 # rest0"
    using d(4) by (simp add: u_def rest0_def)
  finally have u_form: "u = a @ (0 # rest0 @ [u ! 47])"
    by simp
  have "put_at ?A (b @ [0]) u = a @ (b @ [0]) @ drop (length (b @ [0])) (0 # rest0 @ [u ! 47])"
    by (subst u_form) (rule put_at_prefix)
  also have "\<dots> = (a @ b @ 0 # drop ?B rest0) @ [u ! 47]"
    using fits lrest0 by simp
  finally have step1: "put_at ?A (b @ [0]) u = (a @ b @ 0 # drop ?B rest0) @ [u ! 47]" .
  define W where "W = a @ b @ 0 # drop ?B rest0"
  have lw: "length W = 47"
    using fits lrest0 by (simp add: W_def)
  have "strs st2 x = put_at 47 [LSBFlag_Set (ucast (R - n)) True] (put_at ?A (b @ [0]) u)"
    by (simp add: st2_def st1_def setter_defs u_def)
  also have "\<dots> = W @ [LSBFlag_Set (ucast (R - n)) True]"
    unfolding step1 W_def [symmetric] using lw by (rule put_at_last)
  finally have form: "strs st2 x = (a @ b) @ 0 # drop ?B rest0 @
      [LSBFlag_Set (ucast (47 - of_nat (length (a @ b)) :: size_t)) True]"
    by (simp only: W_def Rn append_assoc append_Cons)
  have nz': "0 \<notin> set (a @ b)"
    using d(5) nz by simp
  have len': "length (a @ b) < 47"
    using fits by simp
  have rest': "length (drop ?B rest0) = 46 - length (a @ b)"
    using lrest0 by simp
  note o = small_form_observe [OF nz' len' rest' form]
  have run: "append_arr x (b @ 0 # r) n st = Some st2"
    using gt o(1)
    by (simp add: append_arr_def Let_def s cur_def [symmetric] R_def [symmetric] cpy
        st2_def [symmetric] update_size_def)
  have sel: "heap st2 = heap st" "brk st2 = brk st" "junk st2 = junk st"
    by (simp_all add: st2_def st1_def)
  have other: "strs st2 z = strs st z" if "z \<noteq> x" for z
    using that by (simp add: st2_def st1_def)
  show ?thesis
    by (rule that [OF run [unfolded n_def] o(5) o(4) o(1) sel other])
qed

lemma append_large_fits:
  assumes v: "valid st x" and s: "\<not> IsSmall st x" and c: "content st x = Some a"
    and nz: "0 \<notin> set b" and bound: "length a + length b < 2 ^ 55"
    and fits: "length a + length b + 1 \<le> unat (normal_capacity st x)"
  obtains st' where "append_arr x (b @ 0 # r) (of_nat (length b)) st = Some st'"
    and "valid st' x" and "content st' x = Some (a @ b)" and "\<not> IsSmall st' x"
    and "normal_data st' x = normal_data st x" and "normal_capacity st' x = normal_capacity st x"
    and "\<And>q. q \<noteq> normal_data st x \<Longrightarrow> heap st' q = heap st q"
    and "brk st' = brk st" and "junk st' = junk st"
    and "\<And>z. z \<noteq> x \<Longrightarrow> strs st' z = strs st z"
proof -
  let ?A = "length a" and ?B = "length b"
  let ?p = "normal_data st x"
  define cur where "cur = GetSize st x"
  define n where "n = (of_nat ?B :: size_t)"
  define total where "total = cur + n"
  from valid_largeD [OF v s] c obtain blk where p0: "?p \<noteq> 0" and hp: "heap st ?p = Some blk"
    and lb: "length blk = unat (normal_capacity st x)" and ct: "c_text blk = Some a"
    and la: "?A = unat (GetSize st x)"
    by auto
  have ucur: "unat cur = ?A"
    by (simp add: cur_def la)
  note sz = append_sizes [OF ucur bound, folded n_def, folded total_def]
  have nogrow: "\<not> normal_capacity st x < total + 1"
    using fits by (simp add: word_less_nat_alt sz)
  define blk' where "blk' = put_at ?A (b @ [0]) blk"
  define st1 where "st1 = st\<lparr>heap := (heap st)(?p \<mapsto> blk')\<rparr>"
  have room: "?A + length (b @ [0]) \<le> length blk"
    using fits by (simp add: lb)
  have sto: "store (HeapPtr ?p) ?A (b @ [0]) st = Some st1"
    unfolding st1_def blk'_def using p0 hp room by (rule store_heap_eq)
  have cpy: "memcpy_arr (HeapPtr ?p) (unat cur) (b @ 0 # r) (n + 1) st = Some st1"
    using sto by (simp add: memcpy_arr_def ucur sz)
  have l1: "length (strs st1 x) = 48"
    using v by (simp add: st1_def valid_def)
  have small1: "\<not> IsSmall st1 x"
    using s by (simp add: st1_def)
  define st2 where "st2 = update_size x total st1"
  have upd: "st2 = set_normal_sizeFlag x (LSBFlag_Set total False) st1"
    using small1 by (simp add: st2_def update_size_def)
  have run: "append_arr x (b @ 0 # r) n st = Some st2"
    using nogrow
    by (simp add: append_arr_def Let_def s cur_def [symmetric] total_def [symmetric] cpy st2_def)
  note w = set_size_large [OF l1 sz(6) sz(7), folded upd]
  have d2: "normal_data st2 x = ?p" and c2: "normal_capacity st2 x = normal_capacity st x"
    by (simp_all add: w) (simp_all add: st1_def)
  have h2: "heap st2 ?p = Some blk'"
    by (simp add: w st1_def)
  have blk_form: "blk = a @ 0 # drop (Suc ?A) blk"
    using ct by (rule c_text_decompose)
  have "blk' = a @ (b @ [0]) @ drop (length (b @ [0])) (0 # drop (Suc ?A) blk)"
    unfolding blk'_def by (subst blk_form) (rule put_at_prefix)
  then have blk'_form: "blk' = (a @ b) @ 0 # drop ?B (drop (Suc ?A) blk)"
    by simp
  have nza: "0 \<notin> set a"
    using c_text_SomeD [OF ct] by simp
  have ct2: "c_text blk' = Some (a @ b)"
    using nza nz by (subst blk'_form) (rule c_text_terminated, simp)
  have len2: "length blk' = unat (normal_capacity st2 x)"
    using room by (simp add: blk'_def length_put_at c2 lb)
  have la2: "length (a @ b) = unat (GetSize st2 x)"
    by (simp add: w sz)
  note vl = valid_largeI [OF w(1,2) d2 p0 h2 len2 ct2 la2]
  have frame: "heap st2 q = heap st q" if "q \<noteq> ?p" for q
    using that by (simp add: w st1_def)
  have sel: "brk st2 = brk st" "junk st2 = junk st"
    by (simp_all add: w st1_def)
  have other: "strs st2 z = strs st z" if "z \<noteq> x" for z
    using that by (simp add: w) (simp add: st1_def)
  show ?thesis
    by (rule that [OF run [unfolded n_def] vl w(2) d2 c2 frame sel other])
qed

subsection \<open>The effect of an append\<close>

lemma holds_small:
  "holds st x a \<Longrightarrow> IsSmall st x \<Longrightarrow> valid st x \<and> content st x = Some a"
  by (auto simp add: holds_def moved_from_def)

lemma holds_valid: "valid st x \<Longrightarrow> content st x = Some a \<Longrightarrow> holds st x a"
  by (simp add: holds_def)

lemma holds_moved: "moved_from st x \<Longrightarrow> holds st x []"
  by (simp add: holds_def)

lemma moved_from_not_valid: "moved_from st x \<Longrightarrow> \<not> valid st x"
  by (auto simp add: moved_from_def valid_def)

lemma holds_large_fits_valid:
  assumes "holds st x a" and "\<not> IsSmall st x" and "\<not> grows st x m"
  shows "valid st x \<and> content st x = Some a"
proof (rule ccontr)
  assume "\<not> (valid st x \<and> content st x = Some a)"
  with assms(1) have "moved_from st x"
    by (auto simp add: holds_def)
  then have "grows st x m"
    by (simp add: grows_def moved_from_def)
  with assms(3) show False by simp
qed

lemma append_arr_grow_eq:
  assumes h: "holds st x a" and g: "grows st x (length b)" and bound: "length a + length b < 2 ^ 55"
  defines "cur \<equiv> GetSize st x" and "n \<equiv> of_nat (length b) :: size_t"
  shows "append_arr x arr n st =
     (ReallocateAndCopy x ((cur + n) * 2 + 1) cur st \<bind>
       (\<lambda>s. memcpy_arr (HeapPtr (normal_data s x)) (unat cur) arr (n + 1) s)) \<bind>
     (\<lambda>s. Some (update_size x (cur + n) s))"
proof -
  have ucur: "unat cur = length a"
    unfolding cur_def using h by (rule holds_size)
  note sz = append_sizes [OF ucur bound, folded n_def]
  show ?thesis
  proof (cases "IsSmall st x")
    case True
    from holds_small [OF h True] have v: "valid st x" and c: "content st x = Some a"
      by simp_all
    note d = valid_smallD [OF v True c]
    have "unat (ucast (GetValue (small_remainingSizeFlag st x)) :: size_t) = 47 - length a"
      by (simp add: unat_ucast_byte d)
    moreover have "47 - length a \<le> length b"
      using g True by (simp add: grows_def d)
    ultimately have "\<not> n < ucast (GetValue (small_remainingSizeFlag st x))"
      by (simp add: word_less_nat_alt sz)
    then show ?thesis
      using True by (simp add: append_arr_def Let_def cur_def)
  next
    case False
    have "unat (normal_capacity st x) < length a + length b + 1"
      using g False by (simp add: grows_def cur_def [symmetric] ucur)
    then have "normal_capacity st x < cur + n + 1"
      by (simp add: word_less_nat_alt sz)
    then show ?thesis
      using False by (simp add: append_arr_def Let_def cur_def)
  qed
qed

lemma append_arr_effect:
  assumes h: "holds st x a" and nz: "0 \<notin> set b" and bound: "length a + length b < 2 ^ 55"
    and alloc: "grows st x (length b) \<Longrightarrow> can_alloc st"
  obtains st' where "append_arr x (b @ 0 # r) (of_nat (length b)) st = Some st'"
    and "valid st' x" and "content st' x = Some (a @ b)"
    and "\<And>z. z \<noteq> x \<Longrightarrow> strs st' z = strs st z"
    and "junk st' = junk st"
    and "grows st x (length b) \<Longrightarrow>
           \<not> IsSmall st' x \<and> normal_data st' x = brk st \<and>
           unat (normal_capacity st' x) = 2 * (length a + length b) + 1 \<and>
           heap st' (brk st) = Some (a @ b @ 0 # map (junk st (brk st))
                              [Suc (length a + length b)..<2 * (length a + length b) + 1]) \<and>
           brk st' = brk st + 1"
    and "\<And>q. grows st x (length b) \<Longrightarrow> q \<noteq> brk st \<Longrightarrow>
           heap st' q = (if \<not> IsSmall st x \<and> q = normal_data st x \<and> q \<noteq> 0 then None else heap st q)"
    and "\<not> grows st x (length b) \<Longrightarrow> IsSmall st' x = IsSmall st x \<and> brk st' = brk st"
    and "\<not> grows st x (length b) \<Longrightarrow> \<not> IsSmall st x \<Longrightarrow>
           normal_data st' x = normal_data st x \<and> normal_capacity st' x = normal_capacity st x"
    and "\<And>q. \<not> grows st x (length b) \<Longrightarrow> IsSmall st x \<or> q \<noteq> normal_data st x \<Longrightarrow>
           heap st' q = heap st q"
proof (cases "grows st x (length b)")
  case True
  let ?cur = "GetSize st x" and ?n = "of_nat (length b) :: size_t"
  have ucur: "unat ?cur = length a"
    using h by (rule holds_size)
  note sz = append_sizes [OF ucur bound]
  from grow_and_copy [OF h nz bound alloc [OF True], of r]
  obtain st1 where run1: "ReallocateAndCopy x ((?cur + ?n) * 2 + 1) ?cur st \<bind>
       (\<lambda>s. memcpy_arr (HeapPtr (normal_data s x)) (unat ?cur) (b @ 0 # r) (?n + 1) s) = Some st1"
    and f: "valid (update_size x (?cur + ?n) st1) x"
      "content (update_size x (?cur + ?n) st1) x = Some (a @ b)"
      "\<not> IsSmall (update_size x (?cur + ?n) st1) x"
      "GetSize (update_size x (?cur + ?n) st1) x = ?cur + ?n"
      "normal_data (update_size x (?cur + ?n) st1) x = brk st"
      "normal_capacity (update_size x (?cur + ?n) st1) x = (?cur + ?n) * 2 + 1"
      "heap (update_size x (?cur + ?n) st1) (brk st) =
           Some (a @ b @ 0 # map (junk st (brk st))
                              [Suc (length a + length b)..<2 * (length a + length b) + 1])"
      "\<And>q. q \<noteq> brk st \<Longrightarrow> heap (update_size x (?cur + ?n) st1) q =
           (if \<not> IsSmall st x \<and> q = normal_data st x \<and> q \<noteq> 0 then None else heap st q)"
      "\<And>z. z \<noteq> x \<Longrightarrow> strs (update_size x (?cur + ?n) st1) z = strs st z"
      "brk (update_size x (?cur + ?n) st1) = brk st + 1"
      "junk (update_size x (?cur + ?n) st1) = junk st"
    by blast
  have run: "append_arr x (b @ 0 # r) ?n st = Some (update_size x (?cur + ?n) st1)"
    by (simp only: append_arr_grow_eq [OF h True bound] run1) simp
  have cap: "unat (normal_capacity (update_size x (?cur + ?n) st1) x) = 2 * (length a + length b) + 1"
    by (simp only: f(6) sz(4))
  show ?thesis
    using True f(1,2,3,5,7,8,9,10,11) cap by (intro that [OF run]) simp_all
next
  case False
  show ?thesis
  proof (cases "IsSmall st x")
    case True
    from holds_small [OF h True] have v: "valid st x" and c: "content st x = Some a"
      by simp_all
    note d = valid_smallD [OF v True c]
    have fits: "length a + length b < 47"
      using False True d(1) by (simp add: grows_def d)
    from append_small_fits [OF v True c nz fits, of r]
    obtain st' where run: "append_arr x (b @ 0 # r) (of_nat (length b)) st = Some st'"
      and f: "valid st' x" "content st' x = Some (a @ b)" "IsSmall st' x"
        "heap st' = heap st" "brk st' = brk st" "junk st' = junk st"
        "\<And>z. z \<noteq> x \<Longrightarrow> strs st' z = strs st z"
      by blast
    show ?thesis
      using False True f by (intro that [OF run]) simp_all
  next
    case large: False
    from holds_large_fits_valid [OF h large False]
    have v: "valid st x" and c: "content st x = Some a"
      by simp_all
    have fits: "length a + length b + 1 \<le> unat (normal_capacity st x)"
      using False large holds_size [OF h] by (simp add: grows_def)
    from append_large_fits [OF v large c nz bound fits, of r]
    obtain st' where run: "append_arr x (b @ 0 # r) (of_nat (length b)) st = Some st'"
      and f: "valid st' x" "content st' x = Some (a @ b)" "\<not> IsSmall st' x"
        "normal_data st' x = normal_data st x" "normal_capacity st' x = normal_capacity st x"
        "\<And>q. q \<noteq> normal_data st x \<Longrightarrow> heap st' q = heap st q"
        "brk st' = brk st" "junk st' = junk st"
        "\<And>z. z \<noteq> x \<Longrightarrow> strs st' z = strs st z"
      by blast
    show ?thesis
      using False large f by (intro that [OF run]) simp_all
  qed
qed

subsection \<open>The two overloads\<close>

lemma Append_cstr_unfold:
  "Append_cstr x (Some arr) st =
     strlen arr \<bind> (\<lambda>n. if n = 0 then Some st else append_arr x arr n st)"
  unfolding Append_cstr_def append_arr_def by simp

lemma Append_cstr_null: "Append_cstr x None st = Some st"
  by (simp add: Append_cstr_def)

lemma Append_cstr_empty: "Append_cstr x (Some (0 # r)) st = Some st"
  by (simp add: Append_cstr_unfold)

lemma Append_cstr_nonempty:
  assumes "0 \<notin> set b" and "b \<noteq> []" and "length b < 2 ^ 64"
  shows "Append_cstr x (Some (b @ 0 # r)) st = append_arr x (b @ 0 # r) (of_nat (length b)) st"
proof -
  have "unat (of_nat (length b) :: size_t) = length b"
    using assms(3) by (simp add: unat_of_nat)
  with assms(2) have "(of_nat (length b) :: size_t) \<noteq> 0"
    by (metis length_0_conv unat_0)
  then show ?thesis
    using assms(1) by (simp add: Append_cstr_unfold strlen_terminated)
qed

lemma valid_load_terminated:
  assumes v: "valid st y" and c: "content st y = Some b"
  shows "load st (CStr st y) (Suc (length b)) = Some (b @ [0])"
proof (cases "IsSmall st y")
  case True
  note d = valid_smallD [OF v True c]
  have "take (Suc (length b)) (strs st y) = take (Suc (length b)) (take 47 (strs st y))"
    using d(1) by (simp add: min_def)
  also have "\<dots> = b @ [0]"
    by (subst d(4)) simp
  finally show ?thesis
    using True d(1) by (simp add: CStr_def load.simps)
next
  case False
  from valid_largeD [OF v False] c obtain blk where p: "normal_data st y \<noteq> 0"
    and h: "heap st (normal_data st y) = Some blk" and ct: "c_text blk = Some b"
    by auto
  from c_text_SomeD [OF ct] have "Suc (length b) \<le> length blk"
    by simp
  with False p h c_text_take_Suc [OF ct] show ?thesis
    by (simp add: CStr_def load.simps)
qed

lemma memcpy_from_string:
  assumes v: "valid st y" and c: "content st y = Some b" and lb: "length b < 2 ^ 55"
    and u: "strs s y = strs st y"
    and hp: "\<not> IsSmall st y \<Longrightarrow> heap s (normal_data st y) = heap st (normal_data st y)"
  shows "memcpy dst off (CStr s y) (GetSize st y + 1) s
       = memcpy_arr dst off (b @ [0]) (of_nat (length b) + 1) s"
proof -
  have sz: "unat (GetSize st y) = length b"
    using v c by (simp add: valid_def)
  then have un: "unat (GetSize st y + 1) = Suc (length b)"
    using lb by (simp add: unat_plus_one)
  have un': "unat (of_nat (length b) + 1 :: size_t) = Suc (length b)"
    using lb by (simp add: unat_word_ariths unat_of_nat)
  have p: "CStr s y = CStr st y"
    using u by (simp add: CStr_def IsSmall_def getter_defs)
  have "load s (CStr st y) (Suc (length b)) = Some (b @ [0])"
  proof (cases "IsSmall st y")
    case True
    with valid_load_terminated [OF v c] show ?thesis
      by (auto simp add: CStr_def load.simps u split: if_splits)
  next
    case False
    with valid_load_terminated [OF v c] hp [OF False] show ?thesis
      by (auto simp add: CStr_def load.simps split: if_splits)
  qed
  then show ?thesis
    by (simp add: memcpy_def memcpy_arr_def un un' p)
qed

lemma bind_if:
  fixes a b :: "'a option"
  shows "(if c then a else b) \<bind> f = (if c then a \<bind> f else b \<bind> f)"
  by simp

lemma Append_String_eq:
  assumes ne: "x \<noteq> y" and h: "holds st x a" and v: "valid st y" and c: "content st y = Some b"
    and sep: "\<not> IsSmall st x \<Longrightarrow> \<not> IsSmall st y \<Longrightarrow> normal_data st x \<noteq> normal_data st y"
    and lb: "length b < 2 ^ 55"
  shows "Append_String x y st = append_arr x (b @ [0]) (of_nat (length b)) st"
proof -
  let ?cur = "GetSize st x" and ?n = "GetSize st y"
  have n: "?n = of_nat (length b)"
  proof -
    have "unat ?n = length b"
      using v c by (simp add: valid_def)
    moreover have "?n = of_nat (unat ?n)"
      by simp
    ultimately show ?thesis by simp
  qed
  have "memcpy dst off (CStr st y) (?n + 1) st
      = memcpy_arr dst off (b @ [0]) (of_nat (length b) + 1) st" for dst off
    by (rule memcpy_from_string [OF v c lb]) simp_all
  then have here: "memcpy dst off (CStr st y) (?n + 1) st
      = memcpy_arr dst off (b @ [0]) (?n + 1) st" for dst off
    by (simp only: n [symmetric])
  have after: "ReallocateAndCopy x cap ?cur st \<bind> (\<lambda>s. memcpy (HeapPtr (normal_data s x)) off (CStr s y) (?n + 1) s)
      = ReallocateAndCopy x cap ?cur st \<bind>
          (\<lambda>s. memcpy_arr (HeapPtr (normal_data s x)) off (b @ [0]) (?n + 1) s)"
    for cap off
  proof (cases "ReallocateAndCopy x cap ?cur st")
    case None
    then show ?thesis by simp
  next
    case (Some s)
    have alloc: "can_alloc st"
      using Some by (auto simp add: ReallocateAndCopy_def new_char_def can_alloc_def
          split: if_splits)
    have la: "length a \<le> unat cap"
    proof (rule ccontr)
      assume "\<not> length a \<le> unat cap"
      then have big: "unat cap < length a" by simp
      then have a: "a \<noteq> []" by auto
      have b0: "brk st \<noteq> 0" using alloc by (simp add: can_alloc_def)
      let ?s1 = "st\<lparr>heap := (heap st)(brk st \<mapsto> map (junk st (brk st)) [0..<unat cap]), brk := brk st + 1\<rparr>"
      have new: "new_char cap st = Some (brk st, ?s1)"
        using alloc by (rule new_char_ok)
      have "load ?s1 (CStr st x) (unat ?cur) = Some a"
        using holds_load [OF h]
      proof (rule load_frame)
        show "strs ?s1 = strs st" by simp
        fix q assume "heap st q \<noteq> None"
        with alloc have "q \<noteq> brk st" by (auto simp add: can_alloc_def)
        then show "heap ?s1 q = heap st q" by simp
      qed
      moreover have "store (HeapPtr (brk st)) 0 a ?s1 = None"
        using a b0 big by (simp add: store.simps)
      ultimately have "ReallocateAndCopy x cap ?cur st = None"
        by (simp add: ReallocateAndCopy_def new memcpy_def CStr_def split: if_splits)
      with Some show False by simp
    qed
    from ReallocateAndCopy_core [OF holds_length [OF h] holds_load [OF h] holds_deletable [OF h]
        holds_size_bits [OF h] alloc la]
    obtain s' where run: "ReallocateAndCopy x cap ?cur st = Some s'"
      and frame: "\<And>q. q \<noteq> brk st \<Longrightarrow>
          heap s' q = (if \<not> IsSmall st x \<and> q = normal_data st x \<and> q \<noteq> 0 then None else heap st q)"
      and other: "\<And>z. z \<noteq> x \<Longrightarrow> strs s' z = strs st z"
      by blast
    from run Some have s: "s' = s" by simp
    have uy: "strs s y = strs st y"
      using other [of y] ne s by simp
    have hy: "heap s (normal_data st y) = heap st (normal_data st y)" if large: "\<not> IsSmall st y"
    proof -
      from valid_largeD [OF v large] obtain blk where "heap st (normal_data st y) = Some blk"
        by blast
      with alloc have "normal_data st y \<noteq> brk st"
        by (auto simp add: can_alloc_def)
      from frame [OF this] sep large s show ?thesis
        by auto
    qed
    have "memcpy dst off (CStr s y) (?n + 1) s
        = memcpy_arr dst off (b @ [0]) (of_nat (length b) + 1) s" for dst
      using v c lb uy hy by (rule memcpy_from_string)
    then have "memcpy dst off (CStr s y) (?n + 1) s
        = memcpy_arr dst off (b @ [0]) (?n + 1) s" for dst
      by (simp only: n [symmetric])
    then show ?thesis
      by (simp add: Some)
  qed
  have "Append_String x y st = append_arr x (b @ [0]) ?n st"
    unfolding Append_String_def append_arr_def Let_def
    by (simp only: bind_if Option.bind.simps here after cong: if_cong)
  then show ?thesis
    by (simp only: n)
qed

subsection \<open>Several allocations in a row\<close>

lemma room_can_alloc: "room st (Suc k) \<Longrightarrow> can_alloc st"
  by (auto simp add: room_def can_alloc_def dest: spec [of _ 0])

lemma room_less: "room st k \<Longrightarrow> j \<le> k \<Longrightarrow> room st j"
  by (simp add: room_def)

lemma room_same:
  assumes "room st k" and "brk st' = brk st" and "\<And>q. heap st q = None \<Longrightarrow> heap st' q = None"
  shows "room st' k"
  using assms by (simp add: room_def)

lemma room_step:
  assumes r: "room st (Suc k)" and k: "k < 2 ^ 63" and b: "brk st' = brk st + 1"
    and h: "\<And>q. heap st q = None \<Longrightarrow> q \<noteq> brk st \<Longrightarrow> heap st' q = None"
  shows "room st' k"
  unfolding room_def
proof (intro allI impI)
  fix i assume i: "i < k"
  have e: "brk st' + of_nat i = brk st + of_nat (Suc i)"
    by (simp add: b)
  from i have "Suc i < Suc k" by simp
  with r have f: "brk st + of_nat (Suc i) \<noteq> 0" "heap st (brk st + of_nat (Suc i)) = None"
    unfolding room_def by blast+
  have "unat (of_nat (Suc i) :: addr) = Suc i"
    using i k by (simp add: unat_of_nat del: of_nat_Suc)
  then have "(of_nat (Suc i) :: addr) \<noteq> 0"
    by (metis Zero_not_Suc unat_0)
  then have "brk st + of_nat (Suc i) \<noteq> brk st"
    by simp
  from h [OF f(2) this] f(1) show "brk st' + of_nat i \<noteq> 0 \<and> heap st' (brk st' + of_nat i) = None"
    by (simp only: e) simp
qed

lemma room_init: "k < 2 ^ 63 \<Longrightarrow> room st_init k"
proof -
  assume k: "k < 2 ^ 63"
  have "(1 :: addr) + of_nat i \<noteq> 0" if "i < k" for i
  proof -
    have "(1 :: addr) + of_nat i = of_nat (Suc i)"
      by simp
    moreover have "unat (of_nat (Suc i) :: addr) = Suc i"
      using that k by (simp add: unat_of_nat del: of_nat_Suc)
    ultimately show ?thesis
      by (metis Zero_not_Suc unat_0)
  qed
  then show ?thesis
    by (simp add: room_def st_init_def)
qed

text \<open>A string that exists stays what it is when only other objects and blocks change.\<close>

lemma valid_frame:
  assumes v: "valid st y" and u: "strs st' y = strs st y"
    and h: "\<And>q. heap st q \<noteq> None \<Longrightarrow> q = normal_data st y \<Longrightarrow> \<not> IsSmall st y \<Longrightarrow> heap st' q = heap st q"
  shows "valid st' y" and "content st' y = content st y"
    and "IsSmall st' y = IsSmall st y" and "normal_data st' y = normal_data st y"
    and "GetSize st' y = GetSize st y"
proof -
  have hp: "heap st' (normal_data st y) = heap st (normal_data st y)" if "\<not> IsSmall st y"
  proof -
    from valid_largeD [OF v that] obtain blk where "heap st (normal_data st y) = Some blk"
      by blast
    then have "heap st (normal_data st y) \<noteq> None" by simp
    from h [OF this refl that] show ?thesis .
  qed
  show "valid st' y" "content st' y = content st y"
    by (rule valid_same_bytes [OF v u hp], assumption)+
  show "IsSmall st' y = IsSmall st y" "normal_data st' y = normal_data st y"
    "GetSize st' y = GetSize st y"
    using same_bytes [OF u] by simp_all
qed

subsection \<open>Construction followed by an append\<close>

lemma String_cstr_room:
  assumes nz: "0 \<notin> set s" and bound: "length s < 2 ^ 55" and r: "room st (Suc k)" and k: "k < 2 ^ 63"
  obtains st' where "String_cstr this (Some (s @ [0])) st = Some st'"
    and "valid st' this" and "content st' this = Some s"
    and "\<And>y. y \<noteq> this \<Longrightarrow> strs st' y = strs st y"
    and "\<And>q. heap st q \<noteq> None \<Longrightarrow> heap st' q = heap st q"
    and "room st' k"
    and "\<not> IsSmall st' this \<Longrightarrow> heap st (normal_data st' this) = None"
    and "IsSmall st' this \<longleftrightarrow> length s < 47"
proof -
  have alloc: "can_alloc st"
    using r by (rule room_can_alloc)
  from String_cstr_effect [OF nz bound alloc, of this "[]"]
  obtain st' where run: "String_cstr this (Some (s @ [0])) st = Some st'"
    and v: "valid st' this" and c: "content st' this = Some s"
    and "GetSize st' this = of_nat (length s)"
    and small: "IsSmall st' this \<longleftrightarrow> length s < 47"
    and o: "\<And>y. y \<noteq> this \<Longrightarrow> strs st' y = strs st y"
    and h: "heap st' = (if length s < 47 then heap st else (heap st)(brk st \<mapsto> s @ [0]))"
    and b: "brk st' = (if length s < 47 then brk st else brk st + 1)"
    and "junk st' = junk st"
    and l: "47 \<le> length s \<Longrightarrow> normal_data st' this = brk st \<and> normal_capacity st' this = of_nat (length s) + 1"
    by blast
  have hb: "heap st (brk st) = None"
    using alloc by (simp add: can_alloc_def)
  have frame: "heap st' q = heap st q" if "heap st q \<noteq> None" for q
    using that hb by (auto simp add: h)
  have room': "room st' k"
  proof (cases "length s < 47")
    case True
    have "room st k" using r by (rule room_less) simp
    then show ?thesis
      by (rule room_same) (simp_all add: True h b)
  next
    case False
    show ?thesis
      using r k by (rule room_step) (simp_all add: False h b)
  qed
  have fresh: "heap st (normal_data st' this) = None" if "\<not> IsSmall st' this"
    using that small l hb by simp
  show ?thesis
    using run v c o frame room' fresh small by (rule that)
qed

lemma valid_size: "valid st x \<Longrightarrow> content st x = Some a \<Longrightarrow> unat (GetSize st x) = length a"
  by (simp add: valid_def)

lemma two_constructed:
  assumes nza: "0 \<notin> set a" and nzb: "0 \<notin> set b" and la: "length a < 2 ^ 55"
    and lb: "length b < 2 ^ 55" and r: "room st 3" and ne: "x \<noteq> y"
  obtains st1 st2 where "String_cstr x (Some (a @ [0])) st = Some st1"
    and "String_cstr y (Some (b @ [0])) st1 = Some st2"
    and "valid st1 x" and "content st1 x = Some a" and "can_alloc st1"
    and "valid st2 x" and "content st2 x = Some a"
    and "valid st2 y" and "content st2 y = Some b"
    and "\<not> IsSmall st2 x \<Longrightarrow> \<not> IsSmall st2 y \<Longrightarrow> normal_data st2 x \<noteq> normal_data st2 y"
    and "can_alloc st2"
    and "IsSmall st2 x \<longleftrightarrow> length a < 47" and "IsSmall st2 y \<longleftrightarrow> length b < 47"
proof -
  have r3: "room st (Suc 2)"
    using r by (simp add: numeral_3_eq_3)
  have k2: "(2::nat) < 2 ^ 63" and k1: "(1::nat) < 2 ^ 63"
    by simp_all
  from String_cstr_room [OF nza la r3 k2, of x]
  obtain st1 where run1: "String_cstr x (Some (a @ [0])) st = Some st1"
    and v1: "valid st1 x" and c1: "content st1 x = Some a"
    and o1: "\<And>z. z \<noteq> x \<Longrightarrow> strs st1 z = strs st z"
    and f1: "\<And>q. heap st q \<noteq> None \<Longrightarrow> heap st1 q = heap st q"
    and r1: "room st1 2"
    and fresh1: "\<not> IsSmall st1 x \<Longrightarrow> heap st (normal_data st1 x) = None"
    and small1: "IsSmall st1 x \<longleftrightarrow> length a < 47"
    by blast
  have r1': "room st1 (Suc 1)"
    using r1 by (simp add: numeral_2_eq_2)
  have a1: "can_alloc st1"
    using r1' by (rule room_can_alloc)
  from String_cstr_room [OF nzb lb r1' k1, of y]
  obtain st2 where run2: "String_cstr y (Some (b @ [0])) st1 = Some st2"
    and v2: "valid st2 y" and c2: "content st2 y = Some b"
    and o2: "\<And>z. z \<noteq> y \<Longrightarrow> strs st2 z = strs st1 z"
    and f2: "\<And>q. heap st1 q \<noteq> None \<Longrightarrow> heap st2 q = heap st1 q"
    and r2: "room st2 1"
    and fresh2: "\<not> IsSmall st2 y \<Longrightarrow> heap st1 (normal_data st2 y) = None"
    and small2: "IsSmall st2 y \<longleftrightarrow> length b < 47"
    by blast
  have a2: "can_alloc st2"
    using r2 by (simp add: room_can_alloc)
  have ux: "strs st2 x = strs st1 x"
    using ne by (simp add: o2)
  note fx = valid_frame [OF v1 ux f2]
  have sep: "normal_data st2 x \<noteq> normal_data st2 y" if "\<not> IsSmall st2 x" "\<not> IsSmall st2 y"
  proof -
    from that(1) fx(3) have "\<not> IsSmall st1 x" by simp
    from valid_largeD [OF v1 this] obtain blk where "heap st1 (normal_data st1 x) = Some blk"
      by blast
    with fresh2 [OF that(2)] fx(4) show ?thesis
      by auto
  qed
  have cx: "content st2 x = Some a"
    using fx(2) c1 by simp
  have sx: "IsSmall st2 x \<longleftrightarrow> length a < 47"
    using fx(3) small1 by simp
  show ?thesis
    using run1 run2 v1 c1 a1 fx(1) cx v2 c2 sep a2 sx small2 by (rule that)
qed

lemma append_arr_text:
  assumes h: "holds st x a" and nz: "0 \<notin> set b" and bound: "length a + length b < 2 ^ 55"
    and alloc: "can_alloc st"
  obtains st' where "append_arr x (b @ [0]) (of_nat (length b)) st = Some st'"
    and "valid st' x" and "content st' x = Some (a @ b)"
    and "grows st x (length b) \<Longrightarrow>
           \<not> IsSmall st' x \<and> normal_data st' x = brk st \<and>
           unat (normal_capacity st' x) = 2 * (length a + length b) + 1 \<and>
           heap st' (brk st) = Some (a @ b @ 0 # map (junk st (brk st))
                              [Suc (length a + length b)..<2 * (length a + length b) + 1]) \<and>
           brk st' = brk st + 1"
proof -
  from append_arr_effect [OF h nz bound alloc, of "[]"]
  obtain st' where run: "append_arr x (b @ [0]) (of_nat (length b)) st = Some st'"
    and v: "valid st' x" and c: "content st' x = Some (a @ b)"
    and "\<And>z. z \<noteq> x \<Longrightarrow> strs st' z = strs st z"
    and "junk st' = junk st"
    and g: "grows st x (length b) \<Longrightarrow>
           \<not> IsSmall st' x \<and> normal_data st' x = brk st \<and>
           unat (normal_capacity st' x) = 2 * (length a + length b) + 1 \<and>
           heap st' (brk st) = Some (a @ b @ 0 # map (junk st (brk st))
                              [Suc (length a + length b)..<2 * (length a + length b) + 1]) \<and>
           brk st' = brk st + 1"
    and "\<And>q. grows st x (length b) \<Longrightarrow> q \<noteq> brk st \<Longrightarrow>
           heap st' q = (if \<not> IsSmall st x \<and> q = normal_data st x \<and> q \<noteq> 0 then None else heap st q)"
    and "\<not> grows st x (length b) \<Longrightarrow> IsSmall st' x = IsSmall st x \<and> brk st' = brk st"
    and "\<not> grows st x (length b) \<Longrightarrow> \<not> IsSmall st x \<Longrightarrow>
           normal_data st' x = normal_data st x \<and> normal_capacity st' x = normal_capacity st x"
    and "\<And>q. \<not> grows st x (length b) \<Longrightarrow> IsSmall st x \<or> q \<noteq> normal_data st x \<Longrightarrow>
           heap st' q = heap st q"
    by blast
  from run v c g show ?thesis
    by (rule that)
qed

lemma Append_cstr_text:
  assumes v: "valid st x" and c: "content st x = Some a" and nz: "0 \<notin> set b"
    and bound: "length a + length b < 2 ^ 55" and alloc: "can_alloc st"
  obtains st' where "Append_cstr x (Some (b @ [0])) st = Some st'"
    and "valid st' x" and "content st' x = Some (a @ b)"
proof (cases "b = []")
  case True
  have "Append_cstr x (Some (b @ [0])) st = Some st"
    by (simp add: True Append_cstr_empty)
  then show ?thesis
    using v c True by (intro that [of st]) simp_all
next
  case False
  have "length b < 2 ^ 55"
    using bound by simp
  then have "length b < 2 ^ 64"
    by (rule less_trans) simp
  with nz False have eq: "Append_cstr x (Some (b @ [0])) st
      = append_arr x (b @ [0]) (of_nat (length b)) st"
    by (rule Append_cstr_nonempty)
  from append_arr_text [OF holds_valid [OF v c] nz bound alloc]
  obtain st' where "append_arr x (b @ [0]) (of_nat (length b)) st = Some st'"
    and "valid st' x" and "content st' x = Some (a @ b)"
    by blast
  then show ?thesis
    using eq by (intro that [of st']) simp_all
qed

text \<open>
  C1. For all byte sequences \<open>a\<close> and \<open>b\<close> (free of NUL, together shorter than
  \<open>2 ^ 55\<close> bytes), the string constructed from \<open>a\<close> shows, after \<open>b\<close> is appended, the
  text \<open>a\<close> followed by \<open>b\<close>, and its size is the sum of the two lengths. This holds
  for the append of a C string and for the append of a second string constructed from
  \<open>b\<close>.
\<close>

theorem append_composition:
  assumes "0 \<notin> set a" and "0 \<notin> set b" and "length a + length b < 2 ^ 55"
    and "room st 3" and "x \<noteq> y"
  shows "(\<exists>st1 st2. String_cstr x (Some (a @ [0])) st = Some st1
            \<and> Append_cstr x (Some (b @ [0])) st1 = Some st2
            \<and> content st2 x = Some (a @ b)
            \<and> unat (GetSize st2 x) = length a + length b)
       \<and> (\<exists>st1 st2 st3. String_cstr x (Some (a @ [0])) st = Some st1
            \<and> String_cstr y (Some (b @ [0])) st1 = Some st2
            \<and> Append_String x y st2 = Some st3
            \<and> content st3 x = Some (a @ b)
            \<and> unat (GetSize st3 x) = length a + length b)"
proof
  note nza = assms(1) and nzb = assms(2) and bound = assms(3) and ne = assms(5)
  have la: "length a < 2 ^ 55" and lb: "length b < 2 ^ 55"
    using bound by simp_all
  from two_constructed [OF nza nzb la lb assms(4) ne]
  obtain st1 st2 where run1: "String_cstr x (Some (a @ [0])) st = Some st1"
    and run2: "String_cstr y (Some (b @ [0])) st1 = Some st2"
    and v1: "valid st1 x" and c1: "content st1 x = Some a" and a1: "can_alloc st1"
    and v2x: "valid st2 x" and c2x: "content st2 x = Some a"
    and v2y: "valid st2 y" and c2y: "content st2 y = Some b"
    and sep: "\<not> IsSmall st2 x \<Longrightarrow> \<not> IsSmall st2 y \<Longrightarrow> normal_data st2 x \<noteq> normal_data st2 y"
    and a2: "can_alloc st2"
    and "IsSmall st2 x \<longleftrightarrow> length a < 47" and "IsSmall st2 y \<longleftrightarrow> length b < 47"
    by blast
  from Append_cstr_text [OF v1 c1 nzb bound a1]
  obtain s2 where r: "Append_cstr x (Some (b @ [0])) st1 = Some s2"
    and v: "valid s2 x" and c: "content s2 x = Some (a @ b)"
    by blast
  from run1 r c valid_size [OF v c]
  show "\<exists>st1 st2. String_cstr x (Some (a @ [0])) st = Some st1
            \<and> Append_cstr x (Some (b @ [0])) st1 = Some st2
            \<and> content st2 x = Some (a @ b)
            \<and> unat (GetSize st2 x) = length a + length b"
    by auto
  have hx: "holds st2 x a"
    using v2x c2x by (rule holds_valid)
  have eq: "Append_String x y st2 = append_arr x (b @ [0]) (of_nat (length b)) st2"
    using ne hx v2y c2y sep lb by (rule Append_String_eq)
  from append_arr_text [OF hx nzb bound a2]
  obtain st3 where "append_arr x (b @ [0]) (of_nat (length b)) st2 = Some st3"
    and v3: "valid st3 x" and c3: "content st3 x = Some (a @ b)"
    by blast
  with run1 run2 eq valid_size [OF v3 c3]
  show "\<exists>st1 st2 st3. String_cstr x (Some (a @ [0])) st = Some st1
            \<and> String_cstr y (Some (b @ [0])) st1 = Some st2
            \<and> Append_String x y st2 = Some st3
            \<and> content st3 x = Some (a @ b)
            \<and> unat (GetSize st3 x) = length a + length b"
    by auto
qed

theorem append_composition_witness:
  "(\<exists>st1 st2. String_cstr 0 (Some ([72, 101, 108, 108, 111] @ [0])) st_init = Some st1
            \<and> Append_cstr 0 (Some (replicate 60 88 @ [0])) st1 = Some st2
            \<and> content st2 0 = Some ([72, 101, 108, 108, 111] @ replicate 60 88)
            \<and> unat (GetSize st2 0) = length [72, 101, 108, 108, 111 :: byte] + length (replicate 60 (88 :: byte)))
       \<and> (\<exists>st1 st2 st3. String_cstr 0 (Some ([72, 101, 108, 108, 111] @ [0])) st_init = Some st1
            \<and> String_cstr 1 (Some (replicate 60 88 @ [0])) st1 = Some st2
            \<and> Append_String 0 1 st2 = Some st3
            \<and> content st3 0 = Some ([72, 101, 108, 108, 111] @ replicate 60 88)
            \<and> unat (GetSize st3 0) = length [72, 101, 108, 108, 111 :: byte] + length (replicate 60 (88 :: byte)))"
proof -
  have "0 \<notin> set [72, 101, 108, 108, 111 :: byte]" and "0 \<notin> set (replicate 60 (88 :: byte))"
    and "length [72, 101, 108, 108, 111 :: byte] + length (replicate 60 (88 :: byte)) < 2 ^ 55"
    and "room st_init 3" and "(0 :: nat) \<noteq> 1"
    by (simp_all add: room_init)
  then show ?thesis
    by (rule append_composition)
qed

lemma grows_nonempty:
  assumes v: "valid st x" and c: "content st x = Some a" and g: "grows st x m"
  shows "0 < m"
proof (cases "IsSmall st x")
  case True
  note d = valid_smallD [OF v True c]
  from g True d(1) show ?thesis
    by (simp add: grows_def d(2))
next
  case False
  from valid_largeD [OF v False] c obtain blk where lb: "length blk = unat (normal_capacity st x)"
    and ct: "c_text blk = Some a" and la: "length a = unat (GetSize st x)"
    by auto
  from c_text_SomeD [OF ct] have "length a < length blk"
    by simp
  with g False lb la show ?thesis
    by (simp add: grows_def)
qed

lemma heap_update_size [simp]: "heap (update_size x t s) = heap s"
  by (simp add: update_size_def)




subsection \<open>Appending a string to itself\<close>

lemma Append_String_self_fits:
  assumes v: "valid st x" and c: "content st x = Some a" and fits: "\<not> grows st x (length a)"
    and la: "length a < 2 ^ 54"
  shows "Append_String x x st = append_arr x (a @ [0]) (of_nat (length a)) st"
proof -
  let ?n = "GetSize st x"
  have un: "unat ?n = length a"
    using v c by (rule valid_size)
  have n: "?n = of_nat (length a)"
  proof -
    have "?n = of_nat (unat ?n)" by simp
    then show ?thesis by (simp only: un)
  qed
  have la55: "length a < 2 ^ 55"
    using la by (rule less_trans) simp
  have bound: "length a + length a < 2 ^ 55"
    using la by simp
  note sz = append_sizes [OF un bound]
  have "memcpy dst off (CStr st x) (?n + 1) st
      = memcpy_arr dst off (a @ [0]) (of_nat (length a) + 1) st" for dst off
    by (rule memcpy_from_string [OF v c la55]) simp_all
  then have here: "memcpy dst off (CStr st x) (?n + 1) st
      = memcpy_arr dst off (a @ [0]) (?n + 1) st" for dst off
    by (simp only: n [symmetric])
  have nogrow: "IsSmall st x \<Longrightarrow> ?n < ucast (GetValue (small_remainingSizeFlag st x))"
    "\<not> IsSmall st x \<Longrightarrow> \<not> normal_capacity st x < ?n + ?n + 1"
  proof -
    assume s: "IsSmall st x"
    note d = valid_smallD [OF v s c]
    have "unat (ucast (GetValue (small_remainingSizeFlag st x)) :: size_t) = 47 - length a"
      by (simp add: unat_ucast_byte d)
    moreover have "length a < 47 - length a"
      using fits s d(1) by (simp add: grows_def d(2))
    ultimately show "?n < ucast (GetValue (small_remainingSizeFlag st x))"
      by (simp add: word_less_nat_alt un)
  next
    assume l: "\<not> IsSmall st x"
    have "length a + length a + 1 \<le> unat (normal_capacity st x)"
      using fits l by (simp add: grows_def un)
    moreover have "unat (?n + ?n + 1) = Suc (length a + length a)"
      using sz(5) by (simp only: n [symmetric])
    ultimately show "\<not> normal_capacity st x < ?n + ?n + 1"
      by (simp add: word_less_nat_alt)
  qed
  have "Append_String x x st = append_arr x (a @ [0]) ?n st"
  proof (cases "IsSmall st x")
    case True
    then show ?thesis
      unfolding Append_String_def append_arr_def Let_def
      using nogrow(1) [OF True] by (simp only: here if_True if_False Option.bind.simps)
  next
    case False
    then show ?thesis
      unfolding Append_String_def append_arr_def Let_def
      using nogrow(2) [OF False] by (simp only: here if_True if_False Option.bind.simps)
  qed
  then show ?thesis
    by (simp only: n)
qed

lemma self_append_grows:
  assumes v: "valid st x" and c: "content st x = Some a" and g: "grows st x (length a)"
    and la: "length a < 2 ^ 54" and alloc: "can_alloc st"
  obtains st' where "Append_String x x st = Some st'"
    and "\<not> IsSmall st' x" and "unat (GetSize st' x) = length a + length a"
    and "CStr st' x = HeapPtr (brk st)"
    and "heap st' (brk st) = Some (a @ a @ junk st (brk st) (length a) #
           map (junk st (brk st)) [Suc (length a + length a)..<2 * (length a + length a) + 1])"
proof -
  let ?A = "length a"
  define cur where "cur = GetSize st x"
  define total where "total = cur + cur"
  define cap where "cap = total * 2 + 1"
  have h: "holds st x a"
    using v c by (rule holds_valid)
  have ucur: "unat cur = ?A"
    unfolding cur_def using v c by (rule valid_size)
  have n: "cur = of_nat ?A"
  proof -
    have "cur = of_nat (unat cur)" by simp
    then show ?thesis by (simp only: ucur)
  qed
  have bound: "?A + ?A < 2 ^ 55"
    using la by simp
  note sz = append_sizes [OF ucur bound, folded n, folded total_def, folded cap_def]
  note l = holds_length [OF h]
  have ld: "load st (CStr st x) (unat cur) = Some a"
    unfolding cur_def using h by (rule holds_load)
  have del: "\<not> IsSmall st x \<Longrightarrow> normal_data st x = 0 \<or> heap st (normal_data st x) \<noteq> None"
    using h by (rule holds_deletable)
  note bits = holds_size_bits [OF h, folded cur_def]
  have fit: "?A \<le> unat cap"
    by (simp add: sz)
  from ReallocateAndCopy_core [OF l ld del bits alloc fit]
  obtain s1 where run1: "ReallocateAndCopy x cap cur st = Some s1"
    and l1: "length (strs s1 x) = 48" and small1: "\<not> IsSmall s1 x" and size1: "GetSize s1 x = cur"
    and data1: "normal_data s1 x = brk st" and cap1: "normal_capacity s1 x = cap"
    and blk1: "heap s1 (brk st) = Some (a @ map (junk st (brk st)) [?A..<unat cap])"
    and frame1: "\<And>q. q \<noteq> brk st \<Longrightarrow>
          heap s1 q = (if \<not> IsSmall st x \<and> q = normal_data st x \<and> q \<noteq> 0 then None else heap st q)"
    and other1: "\<And>z. z \<noteq> x \<Longrightarrow> strs s1 z = strs st z"
    and brk1: "brk s1 = brk st + 1" and junk1: "junk s1 = junk st"
    by blast
  have b0: "brk st \<noteq> 0"
    using alloc by (simp add: can_alloc_def)
  define B1 where "B1 = a @ map (junk st (brk st)) [?A..<unat cap]"
  have lB1: "length B1 = 4 * ?A + 1"
    by (simp add: B1_def sz)
  have src: "take (Suc ?A) B1 = a @ [junk st (brk st) ?A]"
  proof -
    have "[?A..<unat cap] = ?A # [Suc ?A..<unat cap]"
      by (rule upt_conv_Cons) (simp add: sz)
    then show ?thesis
      by (simp add: B1_def)
  qed
  have p1: "CStr s1 x = HeapPtr (brk st)"
    by (simp add: CStr_def small1 data1)
  have "load s1 (HeapPtr (brk st)) (Suc ?A) = Some (take (Suc ?A) B1)"
    using b0 lB1 blk1 [folded B1_def] by (simp add: load.simps)
  then have ld1: "load s1 (CStr s1 x) (unat (cur + 1)) = Some (a @ [junk st (brk st) ?A])"
    by (simp only: p1 sz src)
  define B2 where "B2 = put_at ?A (a @ [junk st (brk st) ?A]) B1"
  define s2 where "s2 = s1\<lparr>heap := (heap s1)(brk st \<mapsto> B2)\<rparr>"
  have room: "?A + length (a @ [junk st (brk st) ?A]) \<le> length B1"
    by (simp add: lB1)
  have sto: "store (HeapPtr (brk st)) ?A (a @ [junk st (brk st) ?A]) s1 = Some s2"
    unfolding s2_def B2_def using b0 blk1 [folded B1_def] room by (rule store_heap_eq)
  have cpy: "memcpy (HeapPtr (normal_data s1 x)) (unat cur) (CStr s1 x) (cur + 1) s1 = Some s2"
    using sto by (simp add: memcpy_def ld1 data1 ucur)
  have l2: "length (strs s2 x) = 48" and small2: "\<not> IsSmall s2 x"
    using l1 small1 by (simp_all add: s2_def)
  define s3 where "s3 = update_size x total s2"
  have upd: "s3 = set_normal_sizeFlag x (LSBFlag_Set total False) s2"
    using small2 by (simp add: s3_def update_size_def)
  note w = set_size_large [OF l2 sz(6) sz(7), folded upd]
  have d3: "normal_data s3 x = brk st"
    by (simp add: w) (simp add: s2_def data1)
  have B2_form: "B2 = a @ a @ junk st (brk st) ?A # map (junk st (brk st)) [Suc (?A + ?A)..<2 * (?A + ?A) + 1]"
    by (simp add: B2_def B1_def put_at_prefix drop_junk_tail sz)
  have h3: "heap s3 (brk st) = Some B2"
    by (simp add: w s2_def)
  have grow_small: "\<not> cur < ucast (GetValue (small_remainingSizeFlag st x))" if s: "IsSmall st x"
  proof -
    note d = valid_smallD [OF v s c]
    have "unat (ucast (GetValue (small_remainingSizeFlag st x)) :: size_t) = 47 - ?A"
      by (simp add: unat_ucast_byte d)
    moreover have "47 - ?A \<le> ?A"
      using g s by (simp add: grows_def d)
    ultimately show ?thesis
      by (simp add: word_less_nat_alt ucur)
  qed
  have grow_large: "normal_capacity st x < total + 1" if s: "\<not> IsSmall st x"
  proof -
    have "unat (normal_capacity st x) < ?A + ?A + 1"
      using g s by (simp add: grows_def cur_def [symmetric] ucur)
    then show ?thesis
      by (simp add: word_less_nat_alt sz)
  qed
  have both: "ReallocateAndCopy x cap cur st \<bind>
       (\<lambda>s. memcpy (HeapPtr (normal_data s x)) (unat cur) (CStr s x) (cur + 1) s) = Some s2"
    by (simp add: run1 cpy)
  have run: "Append_String x x st = Some s3"
  proof (cases "IsSmall st x")
    case True
    then show ?thesis
      unfolding Append_String_def Let_def cur_def [symmetric] total_def [symmetric] cap_def [symmetric]
      using grow_small [OF True] by (simp only: both if_True if_False Option.bind.simps s3_def)
  next
    case False
    then show ?thesis
      unfolding Append_String_def Let_def cur_def [symmetric] total_def [symmetric] cap_def [symmetric]
      using grow_large [OF False] by (simp only: both if_True if_False Option.bind.simps s3_def)
  qed
  have sz3: "unat (GetSize s3 x) = ?A + ?A"
    by (simp add: w sz)
  have d2: "normal_data s2 x = brk st"
    by (simp add: s2_def data1)
  have p3: "CStr s3 x = HeapPtr (brk st)"
    by (simp add: CStr_def w d2)
  show ?thesis
    using run w(2) sz3 p3 h3 [unfolded B2_form] by (rule that)
qed

lemma String_cstr_small_init:
  assumes nz: "0 \<notin> set s" and len: "length s < 47"
  obtains st1 where "String_cstr x (Some (s @ [0])) st_init = Some st1"
    and "valid st1 x" and "content st1 x = Some s" and "IsSmall st1 x"
    and "can_alloc st1" and "brk st1 = 1" and "junk st1 = (\<lambda>_ _. 88)"
proof -
  have bound: "length s < 2 ^ 55"
    using len by (rule less_trans) simp
  have alloc: "47 \<le> length s \<Longrightarrow> can_alloc st_init"
    using can_alloc_init by simp
  from String_cstr_effect [OF nz bound alloc, of x "[]"]
  obtain st1 where run: "String_cstr x (Some (s @ [0])) st_init = Some st1"
    and v: "valid st1 x" and c: "content st1 x = Some s"
    and "GetSize st1 x = of_nat (length s)"
    and sm: "IsSmall st1 x \<longleftrightarrow> length s < 47"
    and "\<And>y. y \<noteq> x \<Longrightarrow> strs st1 y = strs st_init y"
    and hp: "heap st1 = (if length s < 47 then heap st_init else (heap st_init)(brk st_init \<mapsto> s @ [0]))"
    and bk: "brk st1 = (if length s < 47 then brk st_init else brk st_init + 1)"
    and jk: "junk st1 = junk st_init"
    and "47 \<le> length s \<Longrightarrow> normal_data st1 x = brk st_init \<and> normal_capacity st1 x = of_nat (length s) + 1"
    by blast
  have s: "IsSmall st1 x"
    using sm len by simp
  have b: "brk st1 = 1"
    using bk len by (simp add: st_init_def)
  have j: "junk st1 = (\<lambda>_ _. 88)"
    using jk by (simp add: st_init_def)
  have "heap st1 = Map.empty"
    using hp len by (simp add: st_init_def)
  then have a: "can_alloc st1"
    by (simp add: can_alloc_def b)
  show ?thesis
    using run v c s a b j by (rule that)
qed

text \<open>
  The example of the test suite: a string holding \<open>Self\<close> appended to itself stays in SBO
  mode and holds \<open>SelfSelf\<close>, eight bytes.
\<close>

lemma self_append_Self:
  "\<exists>st1 st2. String_cstr 0 (Some ([83, 101, 108, 102] @ [0])) st_init = Some st1
     \<and> Append_String 0 0 st1 = Some st2
     \<and> valid st2 0 \<and> content st2 0 = Some [83, 101, 108, 102, 83, 101, 108, 102]
     \<and> unat (GetSize st2 0) = 8"
proof -
  let ?a = "[83, 101, 108, 102 :: byte]"
  have nz: "0 \<notin> set ?a" and len: "length ?a < 47" and la: "length ?a < 2 ^ 54"
    and bound: "length ?a + length ?a < 2 ^ 55"
    by simp_all
  from String_cstr_small_init [OF nz len, of 0]
  obtain st1 where run1: "String_cstr 0 (Some (?a @ [0])) st_init = Some st1"
    and v: "valid st1 0" and c: "content st1 0 = Some ?a" and s: "IsSmall st1 0"
    and alloc: "can_alloc st1" and "brk st1 = 1" and "junk st1 = (\<lambda>_ _. 88)"
    by blast
  have u: "unat (GetSize st1 0) = length ?a"
    using v c by (rule valid_size)
  have fits: "\<not> grows st1 0 (length ?a)"
    using s u by (simp add: grows_def)
  have h: "holds st1 0 ?a"
    using v c by (rule holds_valid)
  from append_arr_text [OF h nz bound alloc]
  obtain st2 where run2: "append_arr 0 (?a @ [0]) (of_nat (length ?a)) st1 = Some st2"
    and v2: "valid st2 0" and c2: "content st2 0 = Some (?a @ ?a)"
    and "grows st1 0 (length ?a) \<Longrightarrow>
           \<not> IsSmall st2 0 \<and> normal_data st2 0 = brk st1 \<and>
           unat (normal_capacity st2 0) = 2 * (length ?a + length ?a) + 1 \<and>
           heap st2 (brk st1) = Some (?a @ ?a @ 0 # map (junk st1 (brk st1))
                              [Suc (length ?a + length ?a)..<2 * (length ?a + length ?a) + 1]) \<and>
           brk st2 = brk st1 + 1"
    by blast
  have "Append_String 0 0 st1 = append_arr 0 (?a @ [0]) (of_nat (length ?a)) st1"
    using v c fits la by (rule Append_String_self_fits)
  with run2 have run: "Append_String 0 0 st1 = Some st2"
    by (simp only:)
  have "unat (GetSize st2 0) = length (?a @ ?a)"
    using v2 c2 by (rule valid_size)
  then have "unat (GetSize st2 0) = 8"
    by simp
  moreover have "content st2 0 = Some [83, 101, 108, 102, 83, 101, 108, 102]"
    using c2 by simp
  ultimately show ?thesis
    using run1 run v2 by blast
qed

text \<open>
  C4. Appending a string to itself does not always produce the content twice. The
  operand is read through \<open>other.CStr()\<close> after the reallocation has replaced the buffer of
  \<open>this\<close>, which is the same object, so the terminator that is copied is the byte that
  follows the live bytes in the new block: a byte the allocator left there. A string of
  24 bytes \<open>a\<close> is in SBO mode with 23 bytes remaining; appended to itself it moves to the
  heap with size 48, the byte at offset 48 is the uninitialised \<open>0x58\<close> of this heap, and
  no text of 48 bytes can be read.
\<close>

theorem self_append_realloc_unterminated:
  "\<exists>st1 st2. String_cstr 0 (Some (replicate 24 97 @ [0])) st_init = Some st1
     \<and> valid st1 0 \<and> content st1 0 = Some (replicate 24 97)
     \<and> Append_String 0 0 st1 = Some st2
     \<and> unat (GetSize st2 0) = 48
     \<and> byte_at st2 (CStr st2 0) 48 = Some 88
     \<and> content st2 0 \<noteq> Some (replicate 24 97 @ replicate 24 97)"
proof -
  let ?a = "replicate 24 (97 :: byte)"
  have nz: "0 \<notin> set ?a" and len: "length ?a < 47" and la: "length ?a < 2 ^ 54"
    by simp_all
  from String_cstr_small_init [OF nz len, of 0]
  obtain st1 where run1: "String_cstr 0 (Some (?a @ [0])) st_init = Some st1"
    and v: "valid st1 0" and c: "content st1 0 = Some ?a" and s: "IsSmall st1 0"
    and alloc: "can_alloc st1" and b: "brk st1 = 1" and j: "junk st1 = (\<lambda>_ _. 88)"
    by blast
  have u: "unat (GetSize st1 0) = length ?a"
    using v c by (rule valid_size)
  have g: "grows st1 0 (length ?a)"
    using s u by (simp add: grows_def)
  define blk where "blk = ?a @ ?a @ junk st1 (brk st1) (length ?a) #
           map (junk st1 (brk st1)) [Suc (length ?a + length ?a)..<2 * (length ?a + length ?a) + 1]"
  from self_append_grows [OF v c g la alloc]
  obtain st2 where run2: "Append_String 0 0 st1 = Some st2"
    and "\<not> IsSmall st2 0" and u2: "unat (GetSize st2 0) = length ?a + length ?a"
    and p2: "CStr st2 0 = HeapPtr (brk st1)"
    and h2: "heap st2 (brk st1) = Some blk"
    unfolding blk_def by blast
  have lblk: "length blk = 97"
    by (simp add: blk_def)
  have "blk ! 48 = (?a @ ?a @ [88 :: byte]) ! 48"
    by (simp add: blk_def j nth_append)
  then have n48: "blk ! 48 = 88"
    by (simp add: nth_append)
  have "set blk \<subseteq> {97, 88}"
    by (auto simp add: blk_def j)
  then have no0: "0 \<notin> set blk"
    by auto
  have sz: "unat (GetSize st2 0) = 48"
    using u2 by simp
  have by48: "byte_at st2 (CStr st2 0) 48 = Some 88"
    by (simp add: byte_at_def p2 b h2 [unfolded b] lblk n48)
  have "content st2 0 = None"
    using no0 by (simp add: content_def text_at_def p2 b h2 [unfolded b] c_text_def)
  then have ne: "content st2 0 \<noteq> Some (?a @ ?a)"
    by simp
  show ?thesis
    using run1 v c run2 sz by48 ne by blast
qed

subsection \<open>What a returning operation tells about its arguments\<close>

lemma String_default_eq: "String_cstr x None st = Some (String_default x st)"
  by (simp add: String_cstr_def String_default_def Let_def)

lemma String_default_as_cstr: "String_cstr x (Some ([] @ 0 # r)) st = Some (String_default x st)"
  using String_cstr_null [of x st r] by (simp add: String_default_eq)

lemma new_char_fails: "\<not> can_alloc st \<Longrightarrow> new_char n st = None"
  by (auto simp add: new_char_def can_alloc_def)

lemma String_cstr_alloc:
  assumes run: "String_cstr x (Some (s @ 0 # r)) st = Some st'"
    and nz: "0 \<notin> set s" and len: "47 \<le> length s" and bound: "length s < 2 ^ 63"
  shows "can_alloc st"
proof (rule ccontr)
  assume na: "\<not> can_alloc st"
  let ?n = "of_nat (length s) :: size_t"
  have n64: "length s < 2 ^ 64" using bound by simp
  have sl: "strlen (s @ 0 # r) = Some ?n"
    using nz by (rule strlen_terminated)
  have lt: "\<not> ?n < 47"
    using len n64 by (simp add: of_nat_less_47)
  define st3 where "st3 = set_normal_capacity x (?n + 1)
      (set_normal_sizeFlag x (LSBFlag_Set ?n False) (memset_buffer x st))"
  have "\<not> can_alloc st3"
    using na by (simp add: st3_def)
  then have new: "new_char c st3 = None" for c
    by (rule new_char_fails)
  have "String_cstr x (Some (s @ 0 # r)) st = None"
    by (simp add: String_cstr_def sl lt Let_def st3_def [symmetric] new)
  with run show False
    by simp
qed

lemma memcpy_from_null: "n \<noteq> 0 \<Longrightarrow> memcpy dst off (HeapPtr 0) n st = None"
  by (simp add: memcpy_def load.simps unat_eq_0)

lemma copy_heap_alloc:
  assumes run: "copy_heap x y st = Some st'"
  shows "can_alloc st"
proof (rule ccontr)
  assume na: "\<not> can_alloc st"
  define st2 where "st2 = set_normal_capacity x
      (normal_capacity (set_normal_sizeFlag x (LSBFlag_Set (GetSize st y) False) st) y)
      (set_normal_sizeFlag x (LSBFlag_Set (GetSize st y) False) st)"
  have "\<not> can_alloc st2"
    using na by (simp add: st2_def)
  then have new: "new_char c st2 = None" for c
    by (rule new_char_fails)
  have "copy_heap x y st = None"
    by (simp add: copy_heap_def Let_def st2_def [symmetric] new)
  with run show False
    by simp
qed

lemma copy_heap_moved_from:
  assumes ne: "x \<noteq> y" and m: "moved_from st y"
  shows "copy_heap x y st = None"
proof -
  have d: "normal_data st y = 0" and z: "GetSize st y = 0"
    using m by (simp_all add: moved_from_def)
  define st2 where "st2 = set_normal_capacity x
      (normal_capacity (set_normal_sizeFlag x (LSBFlag_Set (GetSize st y) False) st) y)
      (set_normal_sizeFlag x (LSBFlag_Set (GetSize st y) False) st)"
  define c where "c = normal_capacity st2 x"
  have d2: "normal_data st2 y = 0"
    using ne d by (simp add: st2_def)
  have one: "(0 + 1 :: size_t) \<noteq> 0"
    by simp
  show ?thesis
  proof (cases "can_alloc st2")
    case False
    then have "new_char c st2 = None"
      by (rule new_char_fails)
    then show ?thesis
      unfolding copy_heap_def Let_def st2_def [symmetric] c_def [symmetric]
      by simp
  next
    case True
    define st3 where "st3 = st2\<lparr>heap := (heap st2)(brk st2 \<mapsto> map (junk st2 (brk st2)) [0..<unat c]),
        brk := brk st2 + 1\<rparr>"
    define st4 where "st4 = set_normal_data x (brk st2) st3"
    have new: "new_char c st2 = Some (brk st2, st3)"
      unfolding st3_def using True by (rule new_char_ok)
    have "normal_data st4 y = 0"
      using ne d2 by (simp add: st4_def st3_def)
    then have "memcpy dst off (HeapPtr (normal_data st4 y)) (0 + 1) st4 = None" for dst off
      by (simp only: memcpy_from_null [OF one])
    then have nul: "memcpy dst off (HeapPtr (normal_data st4 y)) (GetSize st y + 1) st4 = None"
      for dst off
      by (simp only: z)
    show ?thesis
      unfolding copy_heap_def Let_def st2_def [symmetric] c_def [symmetric]
      by (simp only: new Option.bind.simps prod.case st4_def [symmetric] nul)
  qed
qed

lemma String_copy_returns:
  assumes run: "String_copy x y st = Some st'" and ne: "x \<noteq> y"
    and h: "valid st y \<or> moved_from st y"
  shows "valid st y" and "\<not> IsSmall st y \<Longrightarrow> can_alloc st"
proof -
  have sm: "IsSmall (memset_buffer x st) y = IsSmall st y"
    using ne by simp
  show "valid st y"
  proof (rule ccontr)
    assume "\<not> valid st y"
    with h have m: "moved_from st y"
      by simp
    then have l: "\<not> IsSmall st y"
      by (simp add: moved_from_def)
    have "strs (memset_buffer x st) y = strs st y"
      using ne by (simp add: memset_buffer_def)
    with m have "moved_from (memset_buffer x st) y"
      by (rule moved_from_same_bytes)
    with ne have "copy_heap x y (memset_buffer x st) = None"
      by (rule copy_heap_moved_from)
    then have "String_copy x y st = None"
      using l by (simp add: String_copy_def Let_def sm)
    with run show False
      by simp
  qed
  show "can_alloc st" if l: "\<not> IsSmall st y"
  proof -
    have "copy_heap x y (memset_buffer x st) = Some st'"
      using run l by (simp add: String_copy_def Let_def sm)
    then have "can_alloc (memset_buffer x st)"
      by (rule copy_heap_alloc)
    then show ?thesis
      by simp
  qed
qed

lemma ReallocateAndCopy_fails: "\<not> can_alloc st \<Longrightarrow> ReallocateAndCopy x c n st = None"
  by (simp add: ReallocateAndCopy_def new_char_fails)

lemma append_arr_alloc:
  assumes h: "holds st x a" and g: "grows st x (length b)" and bound: "length a + length b < 2 ^ 55"
    and run: "append_arr x arr (of_nat (length b)) st = Some st'"
  shows "can_alloc st"
proof (rule ccontr)
  assume "\<not> can_alloc st"
  then have "ReallocateAndCopy x c n st = None" for c n
    by (rule ReallocateAndCopy_fails)
  then have "append_arr x arr (of_nat (length b)) st = None"
    by (simp add: append_arr_grow_eq [OF h g bound])
  with run show False
    by simp
qed

lemma Append_String_moved_operand:
  assumes ne: "x \<noteq> y" and h: "holds st x a" and m: "moved_from st y" and la: "length a < 2 ^ 55"
  shows "Append_String x y st = None"
proof -
  define cur where "cur = GetSize st x"
  have z: "GetSize st y = 0" and p: "CStr st y = HeapPtr 0"
    using m by (simp_all add: moved_from_def CStr_def)
  have one: "(0 + 1 :: size_t) \<noteq> 0"
    by simp
  have here: "memcpy dst off (CStr st y) (0 + 1) st = None" for dst off
    unfolding p using one by (rule memcpy_from_null)
  have ucur: "unat cur = length a"
    unfolding cur_def using h by (rule holds_size)
  have realloc: "ReallocateAndCopy x c cur st \<bind>
       (\<lambda>s. memcpy (HeapPtr (normal_data s x)) k (CStr s y) (0 + 1) s) = None"
    if c: "length a \<le> unat c" for c k
  proof (cases "can_alloc st")
    case False
    then show ?thesis
      by (simp add: ReallocateAndCopy_fails)
  next
    case True
    note l = holds_length [OF h]
    have ld: "load st (CStr st x) (unat cur) = Some a"
      unfolding cur_def using h by (rule holds_load)
    have del: "\<not> IsSmall st x \<Longrightarrow> normal_data st x = 0 \<or> heap st (normal_data st x) \<noteq> None"
      using h by (rule holds_deletable)
    note bits = holds_size_bits [OF h, folded cur_def]
    from ReallocateAndCopy_core [OF l ld del bits True c]
    obtain s1 where run1: "ReallocateAndCopy x c cur st = Some s1"
      and "length (strs s1 x) = 48" and "\<not> IsSmall s1 x" and "GetSize s1 x = cur"
      and "normal_data s1 x = brk st" and "normal_capacity s1 x = c"
      and "heap s1 (brk st) = Some (a @ map (junk st (brk st)) [length a..<unat c])"
      and "\<And>q. q \<noteq> brk st \<Longrightarrow>
          heap s1 q = (if \<not> IsSmall st x \<and> q = normal_data st x \<and> q \<noteq> 0 then None else heap st q)"
      and other1: "\<And>z. z \<noteq> x \<Longrightarrow> strs s1 z = strs st z"
      and "brk s1 = brk st + 1" and "junk s1 = junk st"
      by blast
    have "strs s1 y = strs st y"
      using ne by (simp add: other1)
    then have "IsSmall s1 y = IsSmall st y" and "normal_data s1 y = normal_data st y"
      by (rule same_bytes)+
    then have "CStr s1 y = HeapPtr 0"
      using m by (simp add: CStr_def moved_from_def)
    then have "memcpy dst off (CStr s1 y) (0 + 1) s1 = None" for dst off
      by (simp only: memcpy_from_null [OF one])
    then show ?thesis
      by (simp only: run1 Option.bind.simps)
  qed
  have n0: "cur = of_nat (length a)"
  proof -
    have "cur = of_nat (unat cur)" by simp
    then show ?thesis by (simp only: ucur)
  qed
  have b0: "length a + 0 < 2 ^ 55"
    using la by simp
  have fit: "length a \<le> unat ((cur + 0) * 2 + 1)"
    using append_sizes(4) [OF ucur b0] by simp
  show ?thesis
  proof (cases "IsSmall st x")
    case True
    then have v: "valid st x" and c: "content st x = Some a"
      using h by (auto simp add: holds_def moved_from_def)
    note d = valid_smallD [OF v True c]
    have "unat (ucast (GetValue (small_remainingSizeFlag st x)) :: size_t) = 47 - length a"
      by (simp add: unat_ucast_byte d)
    then have pos: "(0 :: size_t) < ucast (GetValue (small_remainingSizeFlag st x))"
      using d(1) by (simp add: word_less_nat_alt)
    show ?thesis
      unfolding Append_String_def Let_def z
      using True pos by (simp only: here if_True Option.bind.simps)
  next
    case False
    show ?thesis
      unfolding Append_String_def Let_def z cur_def [symmetric]
      using False realloc [OF fit] here
      by (cases "normal_capacity st x < cur + 0 + 1")
         (simp_all only: if_True if_False Option.bind.simps)
  qed
qed

subsection \<open>The invariant of the operations\<close>

lemma invariantD:
  assumes "String_invariant L st"
  shows "\<And>x. x \<in> L \<Longrightarrow> valid st x \<or> moved_from st x"
    and "\<And>x y. x \<in> L \<Longrightarrow> y \<in> L \<Longrightarrow> x \<noteq> y \<Longrightarrow> \<not> IsSmall st x \<Longrightarrow> \<not> IsSmall st y \<Longrightarrow>
           normal_data st x \<noteq> 0 \<Longrightarrow> normal_data st x \<noteq> normal_data st y"
  using assms unfolding String_invariant_def by blast+

lemma invariant_holds:
  assumes "String_invariant L st" and "x \<in> L"
  obtains a where "holds st x a"
proof -
  from invariantD(1) [OF assms] show ?thesis
  proof
    assume v: "valid st x"
    from valid_content [OF v] obtain a where "content st x = Some a"
      by blast
    with v have "holds st x a"
      by (rule holds_valid)
    then show ?thesis
      by (rule that)
  next
    assume "moved_from st x"
    then have "holds st x []"
      by (rule holds_moved)
    then show ?thesis
      by (rule that)
  qed
qed

lemma live_block:
  assumes inv: "String_invariant L st" and w: "w \<in> L"
    and l: "\<not> IsSmall st w" and d: "normal_data st w \<noteq> 0"
  shows "valid st w" and "heap st (normal_data st w) \<noteq> None"
proof -
  from invariantD(1) [OF inv w] d show v: "valid st w"
    by (auto simp add: moved_from_def)
  from valid_largeD [OF v l] show "heap st (normal_data st w) \<noteq> None"
    by auto
qed

lemma fresh_apart:
  assumes inv: "String_invariant L st" and w: "w \<in> L"
    and l: "\<not> IsSmall st w" and alloc: "can_alloc st"
  shows "normal_data st w \<noteq> brk st"
proof (cases "normal_data st w = 0")
  case True
  with alloc show ?thesis
    by (simp add: can_alloc_def)
next
  case False
  from live_block(2) [OF inv w l False] alloc show ?thesis
    by (auto simp add: can_alloc_def)
qed

lemma invariant_step:
  assumes inv: "String_invariant L st"
    and same: "\<And>z. z \<in> L' \<Longrightarrow> z \<notin> C \<Longrightarrow> z \<in> L \<and> strs st' z = strs st z"
    and frame: "\<And>z. z \<in> L' \<Longrightarrow> z \<notin> C \<Longrightarrow> \<not> IsSmall st z \<Longrightarrow> normal_data st z \<noteq> 0 \<Longrightarrow>
                  heap st' (normal_data st z) = heap st (normal_data st z)"
    and new: "\<And>z. z \<in> L' \<Longrightarrow> z \<in> C \<Longrightarrow> valid st' z \<or> moved_from st' z"
    and sep: "\<And>z w. z \<in> L' \<Longrightarrow> z \<in> C \<Longrightarrow> w \<in> L' \<Longrightarrow> w \<noteq> z \<Longrightarrow>
                  \<not> IsSmall st' z \<Longrightarrow> \<not> IsSmall st' w \<Longrightarrow> normal_data st' z \<noteq> 0 \<Longrightarrow>
                  normal_data st' z \<noteq> normal_data st' w"
  shows "String_invariant L' st'"
proof -
  have one: "valid st' z \<or> moved_from st' z" if z: "z \<in> L'" for z
  proof (cases "z \<in> C")
    case True
    with z show ?thesis
      by (rule new)
  next
    case False
    from same [OF z False] have zL: "z \<in> L" and u: "strs st' z = strs st z"
      by simp_all
    from invariantD(1) [OF inv zL] show ?thesis
    proof
      assume v: "valid st z"
      have h: "heap st' q = heap st q"
        if "heap st q \<noteq> None" "q = normal_data st z" "\<not> IsSmall st z" for q
      proof -
        from valid_largeD [OF v that(3)] have "normal_data st z \<noteq> 0"
          by auto
        from frame [OF z False that(3) this] that(2) show ?thesis
          by simp
      qed
      from v u h have "valid st' z"
        by (rule valid_frame)
      then show ?thesis ..
    next
      assume "moved_from st z"
      then have "moved_from st' z"
        using u by (rule moved_from_same_bytes)
      then show ?thesis ..
    qed
  qed
  have two: "normal_data st' x \<noteq> normal_data st' y"
    if x: "x \<in> L'" and y: "y \<in> L'" and ne: "x \<noteq> y" and lx: "\<not> IsSmall st' x"
      and ly: "\<not> IsSmall st' y" and dx: "normal_data st' x \<noteq> 0" for x y
  proof (cases "x \<in> C")
    case True
    from ne have "y \<noteq> x" by simp
    from x True y this lx ly dx show ?thesis
      by (rule sep)
  next
    case xC: False
    show ?thesis
    proof (cases "y \<in> C")
      case True
      show ?thesis
      proof (cases "normal_data st' y = 0")
        case True
        with dx show ?thesis by simp
      next
        case False
        from y True x ne ly lx False have "normal_data st' y \<noteq> normal_data st' x"
          by (rule sep)
        then show ?thesis by simp
      qed
    next
      case yC: False
      from same [OF x xC] have xL: "x \<in> L" and ux: "strs st' x = strs st x"
        by simp_all
      from same [OF y yC] have yL: "y \<in> L" and uy: "strs st' y = strs st y"
        by simp_all
      note sx = same_bytes [OF ux] and sy = same_bytes [OF uy]
      have "normal_data st x \<noteq> normal_data st y"
        using xL yL ne lx ly dx unfolding sx sy by (rule invariantD(2) [OF inv])
      then show ?thesis
        by (simp add: sx(3) sy(3))
    qed
  qed
  from one two show ?thesis
    unfolding String_invariant_def by blast
qed

lemma invariant_ctor_cstr:
  assumes inv: "String_invariant L st" and x: "x \<notin> L"
    and nz: "0 \<notin> set s" and bound: "length s < 2 ^ 55"
    and run: "String_cstr x (Some (s @ 0 # r)) st = Some st'"
  shows "String_invariant (insert x L) st'"
proof -
  have b63: "length s < 2 ^ 63"
    using bound by (rule less_trans) simp
  have alloc: "can_alloc st" if "47 \<le> length s"
    using run nz that b63 by (rule String_cstr_alloc)
  from String_cstr_effect [OF nz bound alloc, of x r]
  obtain st1 where run1: "String_cstr x (Some (s @ 0 # r)) st = Some st1"
    and v: "valid st1 x" and "content st1 x = Some s"
    and "GetSize st1 x = of_nat (length s)"
    and sm: "IsSmall st1 x \<longleftrightarrow> length s < 47"
    and oth: "\<And>y. y \<noteq> x \<Longrightarrow> strs st1 y = strs st y"
    and hp: "heap st1 = (if length s < 47 then heap st else (heap st)(brk st \<mapsto> s @ [0]))"
    and "brk st1 = (if length s < 47 then brk st else brk st + 1)"
    and "junk st1 = junk st"
    and lg: "47 \<le> length s \<Longrightarrow> normal_data st1 x = brk st \<and> normal_capacity st1 x = of_nat (length s) + 1"
    by blast
  from run run1 have eq: "st' = st1"
    by simp
  show ?thesis
    unfolding eq using inv
  proof (rule invariant_step [where C = "{x}"])
    fix z assume "z \<in> insert x L" "z \<notin> {x}"
    then show "z \<in> L \<and> strs st1 z = strs st z"
      by (simp add: oth)
  next
    fix z assume z: "z \<in> insert x L" "z \<notin> {x}" and l: "\<not> IsSmall st z"
    then have zL: "z \<in> L" by simp
    show "heap st1 (normal_data st z) = heap st (normal_data st z)"
    proof (cases "length s < 47")
      case True
      then show ?thesis by (simp add: hp)
    next
      case False
      then have "can_alloc st" by (simp add: alloc)
      with inv zL l have "normal_data st z \<noteq> brk st"
        by (rule fresh_apart)
      with False show ?thesis by (simp add: hp)
    qed
  next
    fix z assume "z \<in> insert x L" "z \<in> {x}"
    with v show "valid st1 z \<or> moved_from st1 z" by simp
  next
    fix z w assume z: "z \<in> {x}" and w: "w \<in> insert x L" "w \<noteq> z"
      and lz: "\<not> IsSmall st1 z" and lw: "\<not> IsSmall st1 w"
    from z w have zx: "z = x" and wL: "w \<in> L" and wx: "w \<noteq> x"
      by simp_all
    from lz zx sm have big: "47 \<le> length s" by simp
    note sw = same_bytes [OF oth [OF wx]]
    have "normal_data st w \<noteq> brk st"
      using inv wL lw [unfolded sw] alloc [OF big] by (rule fresh_apart)
    then show "normal_data st1 z \<noteq> normal_data st1 w"
      using lg [OF big] by (simp add: zx sw)
  qed
qed

lemma invariant_ctor_null:
  assumes inv: "String_invariant L st" and x: "x \<notin> L"
    and run: "String_cstr x None st = Some st'"
  shows "String_invariant (insert x L) st'"
proof -
  have nz: "0 \<notin> set ([] :: byte list)" and bound: "length ([] :: byte list) < 2 ^ 55"
    by simp_all
  have "String_cstr x (Some ([] @ 0 # [])) st = Some st'"
    using run String_cstr_null [of x st "[]"] by simp
  with inv x nz bound show ?thesis
    by (rule invariant_ctor_cstr)
qed

lemma invariant_ctor_default:
  assumes inv: "String_invariant L st" and x: "x \<notin> L"
  shows "String_invariant (insert x L) (String_default x st)"
  using inv x String_default_eq by (rule invariant_ctor_null)

lemma invariant_ctor_copy:
  assumes inv: "String_invariant L st" and x: "x \<notin> L" and y: "y \<in> L"
    and run: "String_copy x y st = Some st'"
  shows "String_invariant (insert x L) st'"
proof -
  from x y have ne: "x \<noteq> y" by auto
  note r = String_copy_returns [OF run ne invariantD(1) [OF inv y]]
  from String_copy_effect [OF ne r]
  obtain st1 where run1: "String_copy x y st = Some st1"
    and v: "valid st1 x" and "content st1 x = content st y"
    and sm: "IsSmall st1 x = IsSmall st y" and "GetSize st1 x = GetSize st y"
    and oth: "\<And>z. z \<noteq> x \<Longrightarrow> strs st1 z = strs st z"
    and hp: "\<And>q. q \<noteq> brk st \<Longrightarrow> heap st1 q = heap st q"
    and hs: "IsSmall st y \<Longrightarrow> heap st1 = heap st \<and> brk st1 = brk st"
    and lg: "\<not> IsSmall st y \<Longrightarrow> normal_data st1 x = brk st \<and>
           normal_capacity st1 x = normal_capacity st y \<and> brk st1 = brk st + 1 \<and>
           (\<exists>blk. heap st1 (brk st) = Some blk \<and> length blk = unat (normal_capacity st y))"
    and "junk st1 = junk st"
    by blast
  from run run1 have eq: "st' = st1"
    by simp
  show ?thesis
    unfolding eq using inv
  proof (rule invariant_step [where C = "{x}"])
    fix z assume "z \<in> insert x L" "z \<notin> {x}"
    then show "z \<in> L \<and> strs st1 z = strs st z"
      by (simp add: oth)
  next
    fix z assume z: "z \<in> insert x L" "z \<notin> {x}" and l: "\<not> IsSmall st z"
    then have zL: "z \<in> L" by simp
    show "heap st1 (normal_data st z) = heap st (normal_data st z)"
    proof (cases "IsSmall st y")
      case True
      then show ?thesis by (simp add: hs)
    next
      case False
      then have "can_alloc st" by (rule r(2))
      with inv zL l have "normal_data st z \<noteq> brk st"
        by (rule fresh_apart)
      then show ?thesis by (rule hp)
    qed
  next
    fix z assume "z \<in> insert x L" "z \<in> {x}"
    with v show "valid st1 z \<or> moved_from st1 z" by simp
  next
    fix z w assume z: "z \<in> {x}" and w: "w \<in> insert x L" "w \<noteq> z"
      and lz: "\<not> IsSmall st1 z" and lw: "\<not> IsSmall st1 w"
    from z w have zx: "z = x" and wL: "w \<in> L" and wx: "w \<noteq> x"
      by simp_all
    from lz zx sm have big: "\<not> IsSmall st y" by simp
    note sw = same_bytes [OF oth [OF wx]]
    have "normal_data st w \<noteq> brk st"
      using inv wL lw [unfolded sw] r(2) [OF big] by (rule fresh_apart)
    then show "normal_data st1 z \<noteq> normal_data st1 w"
      using lg [OF big] by (simp add: zx sw)
  qed
qed

lemma invariant_ctor_move:
  assumes inv: "String_invariant L st" and x: "x \<notin> L" and y: "y \<in> L"
  shows "String_invariant (insert x L) (String_move x y st)"
proof (cases "IsSmall st y")
  case True
  from x y have ne: "x \<noteq> y" by auto
  define st' where "st' = memcpy_buffer x y (memset_buffer x st)"
  have eq: "String_move x y st = st'"
    unfolding st'_def using ne True by (rule String_move_small_eq)
  have v: "valid st y"
    using invariantD(1) [OF inv y] True by (auto simp add: moved_from_def)
  have ux: "strs st' x = strs st y"
    using ne by (simp add: st'_def memcpy_buffer_def memset_buffer_def)
  have oth: "strs st' z = strs st z" if "z \<noteq> x" for z
    using that by (simp add: st'_def memcpy_buffer_def memset_buffer_def)
  have hp: "heap st' = heap st"
    by (simp add: st'_def)
  show ?thesis
    unfolding eq using inv
  proof (rule invariant_step [where C = "{x}"])
    fix z assume "z \<in> insert x L" "z \<notin> {x}"
    then show "z \<in> L \<and> strs st' z = strs st z"
      by (simp add: oth)
  next
    fix z
    show "heap st' (normal_data st z) = heap st (normal_data st z)"
      by (simp add: hp)
  next
    fix z assume "z \<in> insert x L" "z \<in> {x}"
    then have zx: "z = x" by simp
    have "valid st' x"
      using v ux by (rule valid_same_bytes) (simp add: hp)
    then show "valid st' z \<or> moved_from st' z"
      by (simp add: zx)
  next
    fix z w assume "z \<in> {x}" and lz: "\<not> IsSmall st' z"
    then have "\<not> IsSmall st' x" by simp
    with True same_bytes(1) [OF ux] have False by simp
    then show "normal_data st' z \<noteq> normal_data st' w" ..
  qed
next
  case False
  from x y have ne: "x \<noteq> y" by auto
  define st' where "st' = move_heap x y (memset_buffer x st)"
  have eq: "String_move x y st = st'"
    unfolding st'_def using ne False by (rule String_move_heap_eq)
  from invariant_holds [OF inv y] obtain b where hy: "holds st y b" .
  note lo = holds_length [OF hy]
  note m = move_heap_after_memset [OF ne lo False, folded st'_def]
  show ?thesis
    unfolding eq using inv
  proof (rule invariant_step [where C = "{x, y}"])
    fix z assume "z \<in> insert x L" "z \<notin> {x, y}"
    then show "z \<in> L \<and> strs st' z = strs st z"
      by (simp add: m(8))
  next
    fix z
    show "heap st' (normal_data st z) = heap st (normal_data st z)"
      by (simp add: m(9))
  next
    fix z assume "z \<in> insert x L" "z \<in> {x, y}"
    then have "z = x \<or> z = y" by simp
    then show "valid st' z \<or> moved_from st' z"
    proof
      assume zy: "z = y"
      from m(7) show ?thesis by (simp add: zy)
    next
      assume zx: "z = x"
      from invariantD(1) [OF inv y] have "valid st' x \<or> moved_from st' x"
      proof
        assume v: "valid st y"
        have "heap st' (normal_data st y) = heap st (normal_data st y)"
          by (simp add: m(9))
        with v False m(1,2,4,5,3) have "valid st' x"
          by (rule valid_same_fields)
        then show ?thesis ..
      next
        assume "moved_from st y"
        then have "moved_from st' x"
          using m(1,2,3,4,5) by (simp add: moved_from_def)
        then show ?thesis ..
      qed
      then show ?thesis by (simp add: zx)
    qed
  next
    fix z w assume z: "z \<in> {x, y}" and w: "w \<in> insert x L" "w \<noteq> z"
      and lz: "\<not> IsSmall st' z" and lw: "\<not> IsSmall st' w" and dz: "normal_data st' z \<noteq> 0"
    have zy: "z \<noteq> y"
      using m(7) dz by (auto simp add: moved_from_def)
    with z have zx: "z = x" by simp
    show "normal_data st' z \<noteq> normal_data st' w"
    proof (cases "w = y")
      case True
      with m(7) have "normal_data st' w = 0"
        by (simp add: moved_from_def)
      with dz show ?thesis by simp
    next
      case wy: False
      from w zx have wx: "w \<noteq> x" and wL: "w \<in> L" by simp_all
      note sw = same_bytes [OF m(8) [OF wx wy]]
      have dy: "normal_data st y \<noteq> 0"
        using dz by (simp add: zx m(4))
      have "y \<noteq> w" using wy by simp
      with y wL have "normal_data st y \<noteq> normal_data st w"
        using False lw [unfolded sw] dy by (rule invariantD(2) [OF inv])
      then show ?thesis
        by (simp add: zx m(4) sw(3))
    qed
  qed
qed

lemma invariant_dtor:
  assumes inv: "String_invariant L st" and x: "x \<in> L"
    and run: "String_dtor x st = Some st'"
  shows "String_invariant (L - {x}) st'" and "length (strs st' x) = 48"
proof -
  from String_dtor_effect [OF invariantD(1) [OF inv x]]
  obtain st1 where run1: "String_dtor x st = Some st1"
    and hp: "heap st1 = (if \<not> IsSmall st x \<and> normal_data st x \<noteq> 0
                     then (heap st)(normal_data st x := None) else heap st)"
    and oth: "\<And>z. z \<noteq> x \<Longrightarrow> strs st1 z = strs st z"
    and l: "length (strs st1 x) = 48" and "brk st1 = brk st" and "junk st1 = junk st"
    by blast
  from run run1 have eq: "st' = st1"
    by simp
  show "length (strs st' x) = 48"
    unfolding eq by (rule l)
  show "String_invariant (L - {x}) st'"
    unfolding eq using inv
  proof (rule invariant_step [where C = "{}"])
    fix z assume "z \<in> L - {x}"
    then show "z \<in> L \<and> strs st1 z = strs st z"
      by (simp add: oth)
  next
    fix z assume z: "z \<in> L - {x}" and lz: "\<not> IsSmall st z" and dz: "normal_data st z \<noteq> 0"
    then have zL: "z \<in> L" and zx: "z \<noteq> x" by simp_all
    have "normal_data st z \<noteq> normal_data st x" if "\<not> IsSmall st x"
      using zL x zx lz that dz by (rule invariantD(2) [OF inv])
    then show "heap st1 (normal_data st z) = heap st (normal_data st z)"
      by (auto simp add: hp)
  next
    fix z :: nat assume "z \<in> {}"
    then show "valid st1 z \<or> moved_from st1 z" by simp
  next
    fix z w :: nat assume "z \<in> {}"
    then show "normal_data st1 z \<noteq> normal_data st1 w" by simp
  qed
qed

lemma insert_removed: "x \<in> L \<Longrightarrow> insert x (L - {x}) = L"
  by auto

lemma String_copy_fun:
  "x \<noteq> y \<Longrightarrow> String_copy x y =
     (\<lambda>st. if IsSmall st y then Some (memcpy_buffer x y (memset_buffer x st))
           else copy_heap x y (memset_buffer x st))"
  by (rule ext) (simp add: String_copy_def Let_def)

lemma invariant_copy_assign:
  assumes inv: "String_invariant L st" and x: "x \<in> L" and y: "y \<in> L"
    and run: "assign_copy x y st = Some st'"
  shows "String_invariant L st'"
proof (cases "x = y")
  case True
  with run have "st' = st"
    by (simp add: assign_copy_def)
  with inv show ?thesis by simp
next
  case False
  have unf: "assign_copy x y st = String_dtor x st \<bind> String_copy x y"
    using False by (simp add: assign_copy_def String_copy_fun Let_def)
  with run obtain s1 where d: "String_dtor x st = Some s1" and c: "String_copy x y s1 = Some st'"
    by (cases "String_dtor x st") simp_all
  from inv x d have "String_invariant (L - {x}) s1"
    by (rule invariant_dtor)
  moreover have "x \<notin> L - {x}" by simp
  moreover have "y \<in> L - {x}" using y False by simp
  ultimately have "String_invariant (insert x (L - {x})) st'"
    using c by (rule invariant_ctor_copy)
  then show ?thesis
    by (simp only: insert_removed [OF x])
qed

lemma invariant_move_assign:
  assumes inv: "String_invariant L st" and x: "x \<in> L" and y: "y \<in> L"
    and run: "assign_move x y st = Some st'"
  shows "String_invariant L st'"
proof (cases "x = y")
  case True
  with run have "st' = st"
    by (simp add: assign_move_def)
  with inv show ?thesis by simp
next
  case False
  have unf: "assign_move x y st = String_dtor x st \<bind> (\<lambda>s. Some (String_move x y s))"
    using False by (simp add: assign_move_def String_move_def Let_def)
  with run obtain s1 where d: "String_dtor x st = Some s1" and c: "st' = String_move x y s1"
    by (cases "String_dtor x st") simp_all
  from inv x d have "String_invariant (L - {x}) s1"
    by (rule invariant_dtor)
  moreover have "x \<notin> L - {x}" by simp
  moreover have "y \<in> L - {x}" using y False by simp
  ultimately have "String_invariant (insert x (L - {x})) (String_move x y s1)"
    by (rule invariant_ctor_move)
  then show ?thesis
    by (simp only: insert_removed [OF x] c)
qed

lemma invariant_append_arr:
  assumes inv: "String_invariant L st" and x: "x \<in> L" and h: "holds st x a"
    and nz: "0 \<notin> set b" and bound: "length a + length b < 2 ^ 55"
    and run: "append_arr x (b @ 0 # r) (of_nat (length b)) st = Some st'"
  shows "String_invariant L st'"
proof -
  have alloc: "can_alloc st" if g: "grows st x (length b)"
    using h g bound run by (rule append_arr_alloc)
  from append_arr_effect [OF h nz bound alloc, of r]
  obtain st1 where run1: "append_arr x (b @ 0 # r) (of_nat (length b)) st = Some st1"
    and v: "valid st1 x" and "content st1 x = Some (a @ b)"
    and oth: "\<And>z. z \<noteq> x \<Longrightarrow> strs st1 z = strs st z"
    and "junk st1 = junk st"
    and gr: "grows st x (length b) \<Longrightarrow>
           \<not> IsSmall st1 x \<and> normal_data st1 x = brk st \<and>
           unat (normal_capacity st1 x) = 2 * (length a + length b) + 1 \<and>
           heap st1 (brk st) = Some (a @ b @ 0 # map (junk st (brk st))
                              [Suc (length a + length b)..<2 * (length a + length b) + 1]) \<and>
           brk st1 = brk st + 1"
    and grh: "\<And>q. grows st x (length b) \<Longrightarrow> q \<noteq> brk st \<Longrightarrow>
           heap st1 q = (if \<not> IsSmall st x \<and> q = normal_data st x \<and> q \<noteq> 0 then None else heap st q)"
    and fs: "\<not> grows st x (length b) \<Longrightarrow> IsSmall st1 x = IsSmall st x \<and> brk st1 = brk st"
    and fl: "\<not> grows st x (length b) \<Longrightarrow> \<not> IsSmall st x \<Longrightarrow>
           normal_data st1 x = normal_data st x \<and> normal_capacity st1 x = normal_capacity st x"
    and fh: "\<And>q. \<not> grows st x (length b) \<Longrightarrow> IsSmall st x \<or> q \<noteq> normal_data st x \<Longrightarrow>
           heap st1 q = heap st q"
    by blast
  from run run1 have eq: "st' = st1"
    by simp
  have LL: "insert x L = L"
    using x by auto
  have "String_invariant (insert x L) st1"
    using inv
  proof (rule invariant_step [where C = "{x}"])
    fix z assume "z \<in> insert x L" "z \<notin> {x}"
    then show "z \<in> L \<and> strs st1 z = strs st z"
      by (simp add: oth)
  next
    fix z assume z: "z \<in> insert x L" "z \<notin> {x}" and lz: "\<not> IsSmall st z"
      and dz: "normal_data st z \<noteq> 0"
    then have zL: "z \<in> L" and zx: "z \<noteq> x" by simp_all
    have apart: "normal_data st z \<noteq> normal_data st x" if "\<not> IsSmall st x"
      using zL x zx lz that dz by (rule invariantD(2) [OF inv])
    show "heap st1 (normal_data st z) = heap st (normal_data st z)"
    proof (cases "grows st x (length b)")
      case True
      have "normal_data st z \<noteq> brk st"
        using inv zL lz alloc [OF True] by (rule fresh_apart)
      from grh [OF True this] apart show ?thesis
        by auto
    next
      case False
      have "IsSmall st x \<or> normal_data st z \<noteq> normal_data st x"
        using apart by blast
      with False show ?thesis
        by (rule fh)
    qed
  next
    fix z assume "z \<in> insert x L" "z \<in> {x}"
    with v show "valid st1 z \<or> moved_from st1 z" by simp
  next
    fix z w assume z: "z \<in> {x}" and w: "w \<in> insert x L" "w \<noteq> z"
      and lz: "\<not> IsSmall st1 z" and lw: "\<not> IsSmall st1 w" and dz: "normal_data st1 z \<noteq> 0"
    from z w x have zx: "z = x" and wL: "w \<in> L" and wx: "w \<noteq> x"
      by auto
    note sw = same_bytes [OF oth [OF wx]]
    show "normal_data st1 z \<noteq> normal_data st1 w"
    proof (cases "grows st x (length b)")
      case True
      have "normal_data st w \<noteq> brk st"
        using inv wL lw [unfolded sw] alloc [OF True] by (rule fresh_apart)
      then show ?thesis
        using gr [OF True] by (simp add: zx sw(3))
    next
      case False
      have lx: "\<not> IsSmall st x"
        using fs [OF False] lz by (simp add: zx)
      note f = fl [OF False lx]
      have dx: "normal_data st x \<noteq> 0"
        using dz f by (simp add: zx)
      have "x \<noteq> w" using wx by simp
      with x wL have "normal_data st x \<noteq> normal_data st w"
        using lx lw [unfolded sw] dx by (rule invariantD(2) [OF inv])
      then show ?thesis
        using f by (simp add: zx sw(3))
    qed
  qed
  then show ?thesis
    by (simp only: LL eq)
qed

lemma invariant_append_cstr:
  assumes inv: "String_invariant L st" and x: "x \<in> L" and nz: "0 \<notin> set b"
    and bound: "unat (GetSize st x) + length b < 2 ^ 55"
    and run: "Append_cstr x (Some (b @ 0 # r)) st = Some st'"
  shows "String_invariant L st'"
proof (cases "b = []")
  case True
  with run have "st' = st"
    by (simp add: Append_cstr_empty)
  with inv show ?thesis by simp
next
  case False
  from invariant_holds [OF inv x] obtain a where h: "holds st x a" .
  have bd: "length a + length b < 2 ^ 55"
    using bound by (simp only: holds_size [OF h])
  then have "length b < 2 ^ 55" by simp
  then have "length b < 2 ^ 64" by (rule less_trans) simp
  with nz False have "Append_cstr x (Some (b @ 0 # r)) st
      = append_arr x (b @ 0 # r) (of_nat (length b)) st"
    by (rule Append_cstr_nonempty)
  with run have "append_arr x (b @ 0 # r) (of_nat (length b)) st = Some st'"
    by (simp only:)
  with inv x h nz bd show ?thesis
    by (rule invariant_append_arr)
qed

lemma moved_from_grows: "moved_from st x \<Longrightarrow> grows st x m"
  by (simp add: moved_from_def grows_def)

lemma invariant_append_String:
  assumes inv: "String_invariant L st" and x: "x \<in> L" and y: "y \<in> L"
    and self: "x \<noteq> y \<or> \<not> grows st x (unat (GetSize st x))"
    and bound: "unat (GetSize st x) + unat (GetSize st y) < 2 ^ 55"
    and run: "Append_String x y st = Some st'"
  shows "String_invariant L st'"
proof (cases "x = y")
  case True
  with self have fits: "\<not> grows st x (unat (GetSize st x))"
    by simp
  from invariantD(1) [OF inv x] fits have v: "valid st x"
    using moved_from_grows by blast
  from valid_content [OF v] obtain a where c: "content st x = Some a"
    by blast
  have h: "holds st x a"
    using v c by (rule holds_valid)
  note sz = holds_size [OF h]
  have bd: "length a + length a < 2 ^ 55"
    using bound by (simp only: True [symmetric] sz)
  then have la: "length a < 2 ^ 54"
    by simp
  have nf: "\<not> grows st x (length a)"
    using fits sz by simp
  have "Append_String x x st = append_arr x (a @ 0 # []) (of_nat (length a)) st"
    using v c nf la by (rule Append_String_self_fits)
  with run have "append_arr x (a @ 0 # []) (of_nat (length a)) st = Some st'"
    by (simp only: True [symmetric])
  with inv x h holds_no_NUL [OF h] bd show ?thesis
    by (rule invariant_append_arr)
next
  case False
  from invariant_holds [OF inv x] obtain a where h: "holds st x a" .
  note sz = holds_size [OF h]
  have la: "length a < 2 ^ 55"
    using bound by (simp add: sz)
  from invariantD(1) [OF inv y] have v: "valid st y"
  proof
    assume "moved_from st y"
    with False h have "Append_String x y st = None"
      using la by (rule Append_String_moved_operand)
    with run show ?thesis by simp
  qed
  from valid_content [OF v] obtain b where c: "content st y = Some b"
    by blast
  have hy: "holds st y b"
    using v c by (rule holds_valid)
  have bd: "length a + length b < 2 ^ 55"
    using bound by (simp only: sz holds_size [OF hy])
  then have lb: "length b < 2 ^ 55" by simp
  have sep: "normal_data st x \<noteq> normal_data st y" if lx: "\<not> IsSmall st x" and ly: "\<not> IsSmall st y"
  proof -
    from valid_largeD [OF v ly] have dy: "normal_data st y \<noteq> 0"
      by auto
    have "y \<noteq> x" using False by simp
    with y x have "normal_data st y \<noteq> normal_data st x"
      using ly lx dy by (rule invariantD(2) [OF inv])
    then show ?thesis by simp
  qed
  from False h v c sep lb
  have "Append_String x y st = append_arr x (b @ [0]) (of_nat (length b)) st"
    by (rule Append_String_eq)
  with run have "append_arr x (b @ 0 # []) (of_nat (length b)) st = Some st'"
    by (simp only:)
  with inv x h holds_no_NUL [OF hy] bd show ?thesis
    by (rule invariant_append_arr)
qed

lemma invariant_start: "String_invariant {} st"
  by (simp add: String_invariant_def)

lemma reachable_invariant: "reachable L st \<Longrightarrow> String_invariant L st"
proof (induction rule: reachable.induct)
  case (start st)
  show ?case by (rule invariant_start)
next
  case (ctor_default L st x)
  from ctor_default.IH ctor_default.hyps(2) show ?case
    by (rule invariant_ctor_default)
next
  case (ctor_null L st x st')
  from ctor_null.IH ctor_null.hyps(2,3) show ?case
    by (rule invariant_ctor_null)
next
  case (ctor_cstr L st x s r st')
  from ctor_cstr.IH ctor_cstr.hyps(2-5) show ?case
    by (rule invariant_ctor_cstr)
next
  case (ctor_copy L st x y st')
  from ctor_copy.IH ctor_copy.hyps(2-4) show ?case
    by (rule invariant_ctor_copy)
next
  case (ctor_move L st x y)
  from ctor_move.IH ctor_move.hyps(2,3) show ?case
    by (rule invariant_ctor_move)
next
  case (dtor L st x st')
  from dtor.IH dtor.hyps(2,3) show ?case
    by (rule invariant_dtor)
next
  case (copy_assign L st x y st')
  from copy_assign.IH copy_assign.hyps(2-4) show ?case
    by (rule invariant_copy_assign)
next
  case (move_assign L st x y st')
  from move_assign.IH move_assign.hyps(2-4) show ?case
    by (rule invariant_move_assign)
next
  case (append_null L st x st')
  then show ?case
    by (simp add: Append_cstr_null)
next
  case (append_cstr L st x b r st')
  from append_cstr.IH append_cstr.hyps(2-5) show ?case
    by (rule invariant_append_cstr)
next
  case (append_String L st x y st')
  from append_String.IH append_String.hyps(2-6) show ?case
    by (rule invariant_append_String)
qed


text \<open>
  A heap-mode string of 70 bytes built at object 0 and moved into a new object 1: both
  objects are constructed strings of a reachable state, object 1 points to the block and
  object 0 is moved-from.
\<close>

lemma moved_example:
  obtains st1 where "String_cstr 0 (Some (replicate 70 77 @ [0])) st_init = Some st1"
    and "reachable {1, 0} (String_move 1 0 st1)"
    and "CStr (String_move 1 0 st1) 1 = HeapPtr 1"
    and "moved_from (String_move 1 0 st1) 0"
proof -
  let ?s = "replicate 70 (77 :: byte)"
  have nz: "0 \<notin> set ?s" and bound: "length ?s < 2 ^ 55" and big: "47 \<le> length ?s"
    by simp_all
  have alloc: "47 \<le> length ?s \<Longrightarrow> can_alloc st_init"
    using can_alloc_init by simp
  from String_cstr_effect [OF nz bound alloc, of 0 "[]"]
  obtain st1 where run: "String_cstr 0 (Some (?s @ [0])) st_init = Some st1"
    and v: "valid st1 0" and "content st1 0 = Some ?s"
    and "GetSize st1 0 = of_nat (length ?s)"
    and sm: "IsSmall st1 0 \<longleftrightarrow> length ?s < 47"
    and "\<And>y. y \<noteq> 0 \<Longrightarrow> strs st1 y = strs st_init y"
    and "heap st1 = (if length ?s < 47 then heap st_init else (heap st_init)(brk st_init \<mapsto> ?s @ [0]))"
    and "brk st1 = (if length ?s < 47 then brk st_init else brk st_init + 1)"
    and "junk st1 = junk st_init"
    and lg: "47 \<le> length ?s \<Longrightarrow> normal_data st1 0 = brk st_init \<and> normal_capacity st1 0 = of_nat (length ?s) + 1"
    by blast
  have large: "\<not> IsSmall st1 0"
    using sm by simp
  have d: "normal_data st1 0 = 1"
    using lg [OF big] by (simp add: st_init_def)
  have p: "CStr st1 0 = HeapPtr 1"
    by (simp add: CStr_def large d)
  have ne: "(1::nat) \<noteq> 0"
    by simp
  have eq: "String_move 1 0 st1 = move_heap 1 0 (memset_buffer 1 st1)"
    using ne large by (rule String_move_heap_eq)
  note m = move_heap_after_memset [OF ne valid_length [OF v] large, folded eq]
  have r0: "reachable {} st_init"
    by (rule reachable.start)
  have "(0::nat) \<notin> {}"
    by simp
  with r0 have r1: "reachable {0} st1"
    using nz bound run by (rule reachable.ctor_cstr)
  have "(1::nat) \<notin> {0}" and "(0::nat) \<in> {0}"
    by simp_all
  with r1 have r2: "reachable {1, 0} (String_move 1 0 st1)"
    by (rule reachable.ctor_move)
  have p2: "CStr (String_move 1 0 st1) 1 = HeapPtr 1"
    using m(6) by (simp only: p)
  show ?thesis
    using run r2 p2 m(7) by (rule that)
qed




subsection \<open>Moved-from strings as operands\<close>

lemma String_copy_moved_from:
  assumes ne: "x \<noteq> y" and m: "moved_from st y"
  shows "String_copy x y st = None"
proof -
  have l: "\<not> IsSmall st y"
    using m by (simp add: moved_from_def)
  have "strs (memset_buffer x st) y = strs st y"
    using ne by (simp add: memset_buffer_def)
  with m have "moved_from (memset_buffer x st) y"
    by (rule moved_from_same_bytes)
  with ne have "copy_heap x y (memset_buffer x st) = None"
    by (rule copy_heap_moved_from)
  then show ?thesis
    using l by (simp add: String_copy_fun [OF ne])
qed

text \<open>
  The example continued: the string of object 1 is moved on into a new object 2, which
  leaves the objects 0 and 1 moved-from.
\<close>

lemma moved_twice_example:
  obtains st1 where "String_cstr 0 (Some (replicate 70 77 @ [0])) st_init = Some st1"
    and "reachable {1, 0} (String_move 1 0 st1)"
    and "moved_from (String_move 1 0 st1) 0"
    and "reachable {2, 1, 0} (String_move 2 1 (String_move 1 0 st1))"
    and "moved_from (String_move 2 1 (String_move 1 0 st1)) 0"
    and "moved_from (String_move 2 1 (String_move 1 0 st1)) 1"
proof -
  from moved_example obtain st1
    where run: "String_cstr 0 (Some (replicate 70 77 @ [0])) st_init = Some st1"
    and r: "reachable {1, 0} (String_move 1 0 st1)"
    and p: "CStr (String_move 1 0 st1) 1 = HeapPtr 1"
    and m0: "moved_from (String_move 1 0 st1) 0"
    by blast
  define S where "S = String_move 1 0 st1"
  note r = r [folded S_def] and p = p [folded S_def] and m0 = m0 [folded S_def]
  have large: "\<not> IsSmall S 1"
    using p by (auto simp add: CStr_def split: if_splits)
  have mem: "(1::nat) \<in> {1, 0}"
    by simp
  from invariantD(1) [OF reachable_invariant [OF r] mem] have lo: "length (strs S 1) = 48"
    by (auto simp add: valid_def moved_from_def)
  have ne: "(2::nat) \<noteq> 1"
    by simp
  have eq: "String_move 2 1 S = move_heap 2 1 (memset_buffer 2 S)"
    using ne large by (rule String_move_heap_eq)
  note m = move_heap_after_memset [OF ne lo large, folded eq]
  have "strs (String_move 2 1 S) 0 = strs S 0"
    by (rule m(8)) simp_all
  with m0 have m0': "moved_from (String_move 2 1 S) 0"
    by (rule moved_from_same_bytes)
  have "(2::nat) \<notin> {1, 0}"
    by simp
  with r have r': "reachable {2, 1, 0} (String_move 2 1 S)"
    using mem by (rule reachable.ctor_move)
  show ?thesis
    using run r m0 r' m0' m(7) unfolding S_def by (rule that)
qed


text \<open>
  C7, as stated, fails. The moved-from string of object 0 is a string of a reachable
  state, and its copy constructor does not return: it reads \<open>length + 1\<close> bytes through
  the null pointer of the source.
\<close>

theorem copy_of_moved_from_fails:
  "String_cstr 0 (Some (replicate 70 77 @ [0])) st_init \<noteq> None
   \<and> reachable {1, 0}
       (String_move 1 0 (the (String_cstr 0 (Some (replicate 70 77 @ [0])) st_init)))
   \<and> (0::nat) \<in> {1, 0}
   \<and> CStr (String_move 1 0 (the (String_cstr 0 (Some (replicate 70 77 @ [0])) st_init))) 0
       = HeapPtr 0
   \<and> String_copy 2 0
       (String_move 1 0 (the (String_cstr 0 (Some (replicate 70 77 @ [0])) st_init))) = None"
proof -
  from moved_twice_example obtain st1
    where run: "String_cstr 0 (Some (replicate 70 77 @ [0])) st_init = Some st1"
    and r: "reachable {1, 0} (String_move 1 0 st1)"
    and m0: "moved_from (String_move 1 0 st1) 0"
    and "reachable {2, 1, 0} (String_move 2 1 (String_move 1 0 st1))"
    and "moved_from (String_move 2 1 (String_move 1 0 st1)) 0"
    and "moved_from (String_move 2 1 (String_move 1 0 st1)) 1"
    by blast
  have the_eq: "the (String_cstr 0 (Some (replicate 70 77 @ [0])) st_init) = st1"
    by (simp only: run option.sel)
  have some: "String_cstr 0 (Some (replicate 70 77 @ [0])) st_init \<noteq> None"
    by (simp only: run) simp
  have mem: "(0::nat) \<in> {1, 0}"
    by simp
  have p: "CStr (String_move 1 0 st1) 0 = HeapPtr 0"
    using m0 by (rule moved_from_observe)
  have ne: "(2::nat) \<noteq> 0"
    by simp
  from ne m0 have none: "String_copy 2 0 (String_move 1 0 st1) = None"
    by (rule String_copy_moved_from)
  show ?thesis
    unfolding the_eq
    using some r mem p none by (intro conjI)
qed

end
